theory Spec2Isabelle
  imports Complex_Main "HOL-Library.Multiset"
begin

section \<open>Data model\<close>

text \<open>
  The rules engine of the Filipino Mahjong platform (\<^verbatim>\<open>filipinoMahjongLogic\<close>) and the
  discard scoring of its heuristic player (\<^verbatim>\<open>EnhancedMahjongAI\<close>).

  A \<^verbatim>\<open>Tile\<close> is an object with an instance id, a suit, an optional numeric value, optional
  wind and dragon names, optional flower and season names, the bonus flag and two display
  markers. Ids are only ever compared for equality, so they are numbers here. An
  optional field that is \<^verbatim>\<open>undefined\<close> is \<open>None\<close>; a display marker that is
  \<^verbatim>\<open>undefined\<close> is \<open>False\<close>.
\<close>

datatype suit = Circles | Bamboos | Characters | Winds | Dragons | FlowerSuit | SeasonSuit

datatype wind = East | South | West | North

datatype dragon = Red | Green | White

datatype flower = Plum | Orchid | Chrysanthemum | BambooFlower

datatype season = Spring | Summer | Autumn | Winter

record tile =
  tid :: int
  suit :: suit
  tvalue :: "int option"
  wind :: "wind option"
  dragon :: "dragon option"
  flower :: "flower option"
  season :: "season option"
  isBonus :: bool
  isRecentlyDrawn :: bool
  isRecentlyDiscarded :: bool

datatype meldType = Chow | Pung | Kong

text \<open>
  A meld's \<^verbatim>\<open>id\<close> and an ambition record's \<^verbatim>\<open>id\<close> and \<^verbatim>\<open>timestamp\<close> are read off the
  wall clock (\<^verbatim>\<open>Date.now()\<close>); nothing in the engine reads them back, and they are left out
  of the records.
\<close>

record meld =
  mtype :: meldType
  tiles :: "tile list"
  isConcealed :: bool
  claimedFrom :: "nat option"

datatype ambitionType =
  kang | secret | sagasa | thirteen_flowers | no_flowers_start | todas | escalera
  | siete_pares | no_flowers_end | all_up | all_down | all_chow | all_pung | single | bisaklat

record ambitionRecord =
  playerId :: string
  atype :: ambitionType
  payout :: rat
  isInstant :: bool

record player =
  pid :: string
  hand :: "tile list"
  melds :: "meld list"
  flowers :: "tile list"
  discards :: "tile list"
  isDealer :: bool

datatype phase = Draw | Discard

datatype status = Playing | Finished

record gameState =
  players :: "player list"
  currentPlayer :: nat
  dealer :: nat
  wall :: "tile list"
  flowerWall :: "tile list"
  discardPile :: "tile list"
  lastDiscard :: "tile option"
  lastDrawnTile :: "tile option"
  round :: nat
  prevailingWind :: wind
  status :: status
  winner :: "nat option"
  scores :: "int list"
  ambitions :: "ambitionRecord list"
  phase :: phase
  hasDrawnThisTurn :: bool

datatype claimType = ClaimChow | ClaimPung | ClaimKong | ClaimWin

record claimAction =
  ctype :: claimType
  claimant :: string

text \<open>
  The result of the win detector. The payouts 1, 0.5 and 0.25 and their sums are dyadic
  fractions, which double-precision arithmetic adds exactly; they are rationals here. The
  \<^verbatim>\<open>breakdown\<close> object is a list of label and amount in insertion order.
\<close>

record winCondition =
  isValid :: bool
  handType :: string
  wambitions :: "ambitionType list"
  totalPayout :: rat
  breakdown :: "(string \<times> rat) list"

section \<open>Tile predicates\<close>

text \<open>
  Modelled from the spec: \<^verbatim>\<open>tilesMatch\<close> lives in \<^verbatim>\<open>@/utils/mahjongTiles\<close>, which is not
  among the sources. The specification says that two tiles match if suit and rank are equal,
  the instance id being ignored, where the rank is the value of a numbered tile and the wind,
  dragon, flower or season name otherwise.
\<close>

definition tilesMatch :: "tile \<Rightarrow> tile \<Rightarrow> bool" where
  "tilesMatch a b \<longleftrightarrow>
     suit a = suit b \<and> tvalue a = tvalue b \<and> wind a = wind b \<and> dragon a = dragon b
     \<and> flower a = flower b \<and> season a = season b"

text \<open>\<^verbatim>\<open>['circles', 'bamboos', 'characters'].includes(s)\<close>\<close>

definition numbered :: "suit \<Rightarrow> bool" where
  "numbered s \<longleftrightarrow> s = Circles \<or> s = Bamboos \<or> s = Characters"

text \<open>The truthiness of \<^verbatim>\<open>t.value\<close>: defined and not zero.\<close>

definition truthy :: "int option \<Rightarrow> bool" where
  "truthy v \<longleftrightarrow> (case v of None \<Rightarrow> False | Some n \<Rightarrow> n \<noteq> 0)"

text \<open>
  The grouping key \<^verbatim>\<open>`${tile.suit}-${tile.value}-${tile.wind}-${tile.dragon}`\<close>. The suit,
  wind and dragon names contain no dash, so the string determines the four components and
  the key is the tuple.
\<close>

type_synonym tileKey = "suit \<times> int option \<times> wind option \<times> dragon option"

definition keyOf :: "tile \<Rightarrow> tileKey" where
  "keyOf t = (suit t, tvalue t, wind t, dragon t)"

section \<open>Win detection\<close>

subsection \<open>Siete Pares\<close>

text \<open>
  A \<^verbatim>\<open>Map\<close> from key to the tiles with that key, in insertion order; the count of an entry
  is the length of its list.
\<close>

fun addTile :: "tile \<Rightarrow> (tileKey \<times> tile list) list \<Rightarrow> (tileKey \<times> tile list) list" where
  "addTile t [] = [(keyOf t, [t])]"
| "addTile t ((k, ts) # m) = (if k = keyOf t then (k, ts @ [t]) # m else (k, ts) # addTile t m)"

definition tileCounts :: "tile list \<Rightarrow> (tileKey \<times> tile list) list" where
  "tileCounts hnd = foldl (\<lambda>m t. addTile t m) [] hnd"

text \<open>
  \<^verbatim>\<open>canFormSequenceFromTiles\<close>: three tiles of one numbered suit whose values, sorted, are
  consecutive.
\<close>

definition canFormSequenceFromTiles :: "tile list \<Rightarrow> bool" where
  "canFormSequenceFromTiles ts =
     (if length ts \<noteq> 3 then False
      else let s = suit (ts ! 0) in
        if \<not> numbered s then False
        else if \<not> list_all (\<lambda>t. suit t = s \<and> truthy (tvalue t)) ts then False
        else let values = sort (map (\<lambda>t. the (tvalue t)) ts)
             in values ! 1 = values ! 0 + 1 \<and> values ! 2 = values ! 1 + 1)"

text \<open>
  The loop over the entries of \<^verbatim>\<open>checkSevenPairsWithTrio\<close>. The state is the list of pairs,
  the list of single tiles and the flag \<^verbatim>\<open>hasTrioOrSequence\<close>; \<open>None\<close> is the early
  \<^verbatim>\<open>return false\<close>.
\<close>

fun pairScan ::
  "(tileKey \<times> tile list) list \<Rightarrow> tile list list \<times> tile list \<times> bool
     \<Rightarrow> (tile list list \<times> tile list \<times> bool) option" where
  "pairScan [] st = Some st"
| "pairScan ((k, ts) # es) (pairs, remaining, hasTrio) =
     (if length ts = 2 then pairScan es (pairs @ [ts], remaining, hasTrio)
      else if length ts = 3 then
        (if \<not> hasTrio then pairScan es (pairs, remaining, True) else None)
      else if length ts = 1 then pairScan es (pairs, remaining @ ts, hasTrio)
      else if length ts = 4 then
        pairScan es (pairs @ [[ts ! 0, ts ! 1], [ts ! 2, ts ! 3]], remaining, hasTrio)
      else None)"

definition checkSevenPairsWithTrio :: "tile list \<Rightarrow> bool" where
  "checkSevenPairsWithTrio hnd =
     (case pairScan (tileCounts hnd) ([], [], False) of
        None \<Rightarrow> False
      | Some (pairs, remaining, hasTrio) \<Rightarrow>
          let hasTrioOrSequence =
                (if \<not> hasTrio \<and> length remaining = 3 then canFormSequenceFromTiles remaining
                 else hasTrio)
          in length pairs = 7 \<and> hasTrioOrSequence)"

text \<open>\<^verbatim>\<open>counts\<close>: the group sizes sorted in descending order.\<close>

definition sortedCounts :: "tile list \<Rightarrow> nat list" where
  "sortedCounts hnd = rev (sort (map (\<lambda>(k, ts). length ts) (tileCounts hnd)))"

definition isSietePares :: "tile list \<Rightarrow> bool" where
  "isSietePares hnd =
     (if length hnd \<noteq> 17 then False
      else let counts = sortedCounts hnd;
               hasTripleAndPairs =
                 (length counts = 8 \<and> counts ! 0 = 3 \<and> list_all (\<lambda>c. c = 2) (drop 1 counts))
           in if hasTripleAndPairs then True else checkSevenPairsWithTrio hnd)"

subsection \<open>Standard win\<close>

record combo =
  cvalid :: bool
  trios :: "tile list list"
  pair :: "tile list"

definition noCombo :: combo where
  "noCombo = \<lparr>cvalid = False, trios = [], pair = []\<rparr>"

text \<open>\<^verbatim>\<open>findTriplet\<close>: the first three tiles of the list that match the tile at the index.\<close>

definition findTriplet :: "tile list \<Rightarrow> nat \<Rightarrow> tile list" where
  "findTriplet ts startIndex =
     (let baseTile = ts ! startIndex;
          matchingTiles = filter (\<lambda>t. tilesMatch t baseTile) ts
      in if length matchingTiles \<ge> 3 then take 3 matchingTiles else [])"

text \<open>
  \<^verbatim>\<open>findSequence\<close>: the tile at the index, the first tile one rank above it and the first
  tile two ranks above it, in the same suit.
\<close>

definition findSequence :: "tile list \<Rightarrow> nat \<Rightarrow> tile list" where
  "findSequence ts startIndex =
     (let baseTile = ts ! startIndex in
      if \<not> numbered (suit baseTile) \<or> \<not> truthy (tvalue baseTile) then []
      else let s = suit baseTile; v = the (tvalue baseTile) in
        (case (find (\<lambda>t. suit t = s \<and> tvalue t = Some (v + 1)) ts,
               find (\<lambda>t. suit t = s \<and> tvalue t = Some (v + 2)) ts) of
           (Some nextTile, Some nextNextTile) \<Rightarrow> [baseTile, nextTile, nextNextTile]
         | _ \<Rightarrow> []))"

text \<open>\<^verbatim>\<open>tiles.filter(t => !group.some(g => g.id === t.id))\<close>\<close>

definition withoutIds :: "tile list \<Rightarrow> tile list \<Rightarrow> tile list" where
  "withoutIds ts grp = filter (\<lambda>t. \<not> list_ex (\<lambda>g. tid g = tid t) grp) ts"

lemma withoutIds_shorter:
  assumes "x \<in> set grp" and "x \<in> set ts"
  shows "length (withoutIds ts grp) < length ts"
  unfolding withoutIds_def using assms
  by (intro length_filter_less[of x]) (auto simp: list_ex_iff)

lemma findTriplet_shorter:
  assumes "length (findTriplet ts i) = 3"
  shows "length (withoutIds ts (findTriplet ts i)) < length ts"
proof -
  let ?m = "filter (\<lambda>t. tilesMatch t (ts ! i)) ts"
  from assms have eq: "findTriplet ts i = take 3 ?m" and len: "length ?m \<ge> 3"
    by (auto simp: findTriplet_def Let_def split: if_splits)
  from len obtain x xs where m: "?m = x # xs" by (cases ?m) auto
  then have "x \<in> set (take 3 ?m)" by simp
  moreover have "x \<in> set ?m" using m by simp
  then have "x \<in> set ts" by simp
  ultimately show ?thesis using eq withoutIds_shorter by metis
qed

lemma findSequence_shorter:
  assumes "length (findSequence ts i) = 3" and "i < length ts"
  shows "length (withoutIds ts (findSequence ts i)) < length ts"
proof -
  from assms(1) have "ts ! i \<in> set (findSequence ts i)"
    by (auto simp: findSequence_def Let_def split: if_splits option.splits)
  moreover have "ts ! i \<in> set ts" using assms(2) by simp
  ultimately show ?thesis by (rule withoutIds_shorter)
qed

text \<open>
  \<^verbatim>\<open>findTriosAndPair\<close> and its \<^verbatim>\<open>for\<close> loop over the start index \<open>i\<close>, which runs while
  \<^verbatim>\<open>i < tiles.length - 2\<close>. At each index the triplet is tried before the sequence, and the
  first decomposition found is returned.
\<close>

function findTriosAndPair :: "tile list \<Rightarrow> int \<Rightarrow> combo"
  and trioLoop :: "tile list \<Rightarrow> int \<Rightarrow> nat \<Rightarrow> combo" where
  "findTriosAndPair ts neededTrios =
     (if neededTrios = 0 then
        (if length ts = 2 \<and> tilesMatch (ts ! 0) (ts ! 1)
         then \<lparr>cvalid = True, trios = [], pair = ts\<rparr> else noCombo)
      else if length ts < 3 then noCombo
      else trioLoop ts neededTrios 0)"
| "trioLoop ts neededTrios i =
     (if i + 2 < length ts then
        (let triplet = findTriplet ts i;
             r1 = (if length triplet = 3
                   then findTriosAndPair (withoutIds ts (findTriplet ts i)) (neededTrios - 1)
                   else noCombo)
         in if length triplet = 3 \<and> cvalid r1
            then \<lparr>cvalid = True, trios = triplet # trios r1, pair = pair r1\<rparr>
            else
              (let sequence = findSequence ts i;
                   r2 = (if length sequence = 3
                         then findTriosAndPair (withoutIds ts (findSequence ts i)) (neededTrios - 1)
                         else noCombo)
               in if length sequence = 3 \<and> cvalid r2
                  then \<lparr>cvalid = True, trios = sequence # trios r2, pair = pair r2\<rparr>
                  else trioLoop ts neededTrios (i + 1)))
      else noCombo)"
  by pat_completeness auto
termination
proof (relation "inv_image (less_than <*lex*> less_than)
    (\<lambda>x. case x of Inl (ts, n) \<Rightarrow> (length ts, length ts + 1)
                 | Inr (ts, n, i) \<Rightarrow> (length ts, length ts - i))", goal_cases)
  case 1
  show ?case by (intro wf_inv_image wf_lex_prod wf_less_than)
next
  case (2 ts neededTrios)
  then show ?case by simp
next
  case (3 ts neededTrios i)
  then show ?case using findTriplet_shorter by simp
next
  case (4 ts neededTrios i)
  then show ?case using findSequence_shorter by simp
next
  case (5 ts neededTrios i)
  then show ?case by simp
qed

definition findWinningCombination :: "tile list \<Rightarrow> meld list \<Rightarrow> combo" where
  "findWinningCombination ts existingMelds =
     findTriosAndPair ts (5 - int (length existingMelds))"

text \<open>\<^verbatim>\<open>checkStandardWin\<close> returns the verdict and the hand type.\<close>

definition checkStandardWin :: "tile list \<Rightarrow> meld list \<Rightarrow> bool \<times> string" where
  "checkStandardWin hnd ms =
     (let result = findWinningCombination hnd ms
      in if cvalid result then (True, ''Standard Win'') else (False, []))"

subsection \<open>Ambitions of a winning hand\<close>

text \<open>
  \<^verbatim>\<open>Array.prototype.sort((a, b) => a - b)\<close> on values that may be \<^verbatim>\<open>undefined\<close>: the
  numbers in ascending order, then the undefined entries.
\<close>

definition sortValues :: "int option list \<Rightarrow> int option list" where
  "sortValues vs = map Some (sort (concat (map (\<lambda>v. case v of None \<Rightarrow> [] | Some n \<Rightarrow> [n]) vs)))
                    @ filter (\<lambda>v. v = None) vs"

fun addGroup ::
  "suit \<Rightarrow> int option list \<Rightarrow> (suit \<times> int option list list) list
     \<Rightarrow> (suit \<times> int option list list) list" where
  "addGroup s vs [] = [(s, [vs])]"
| "addGroup s vs ((k, g) # m) = (if k = s then (k, g @ [vs]) # m else (k, g) # addGroup s vs m)"

definition suitGroups :: "meld list \<Rightarrow> (suit \<times> int option list list) list" where
  "suitGroups chows =
     foldl (\<lambda>m chow. addGroup (suit (tiles chow ! 0)) (sortValues (map tvalue (tiles chow))) m)
       [] chows"

text \<open>
  \<^verbatim>\<open>isEscalera\<close>. Reading \<^verbatim>\<open>chow.tiles[0].suit\<close> of a chow without tiles throws a
  \<^verbatim>\<open>TypeError\<close>, which is the result \<open>None\<close>. The comparison of the two JSON texts holds
  exactly when the sorted values are the numbers 1 to 9, none of them undefined.
\<close>

definition isEscalera :: "meld list \<Rightarrow> bool option" where
  "isEscalera ms =
     (let chows = filter (\<lambda>m. mtype m = Chow) ms in
      if length chows < 3 then Some False
      else if list_ex (\<lambda>c. tiles c = []) chows then None
      else Some (list_ex (\<lambda>(s, sequences).
                   sortValues (concat sequences) = map Some [1, 2, 3, 4, 5, 6, 7, 8, 9])
                   (suitGroups chows)))"

fun getAmbitionPayout :: "ambitionType \<Rightarrow> rat" where
  "getAmbitionPayout kang = 1 / 4"
| "getAmbitionPayout secret = 1 / 2"
| "getAmbitionPayout sagasa = 1 / 2"
| "getAmbitionPayout thirteen_flowers = 1 / 4"
| "getAmbitionPayout no_flowers_start = 1 / 4"
| "getAmbitionPayout todas = 1"
| "getAmbitionPayout escalera = 1 / 2"
| "getAmbitionPayout siete_pares = 1 / 2"
| "getAmbitionPayout no_flowers_end = 1 / 4"
| "getAmbitionPayout all_up = 1 / 4"
| "getAmbitionPayout all_down = 1 / 4"
| "getAmbitionPayout all_chow = 1 / 4"
| "getAmbitionPayout all_pung = 1 / 4"
| "getAmbitionPayout single = 1 / 4"
| "getAmbitionPayout bisaklat = 1"

definition notWinning :: winCondition where
  "notWinning =
     \<lparr>isValid = False, handType = [], wambitions = [], totalPayout = 0, breakdown = []\<rparr>"

definition sumMeldTiles :: "meld list \<Rightarrow> nat" where
  "sumMeldTiles ms = foldl (\<lambda>sum m. sum + length (tiles m)) 0 ms"

text \<open>
  The three optional bonuses of a standard win, added in the order Escalera, No Flowers End,
  All Up.
\<close>

definition standardAmbitions :: "bool \<Rightarrow> meld list \<Rightarrow> tile list \<Rightarrow> string \<Rightarrow> winCondition" where
  "standardAmbitions esc ms fls ht =
     (let w0 = \<lparr>isValid = True, handType = ht, wambitions = [todas], totalPayout = 1,
                breakdown = [(''Basic Win'', 1)]\<rparr>;
          w1 = (if esc
                then w0\<lparr>wambitions := wambitions w0 @ [escalera],
                        totalPayout := totalPayout w0 + 1 / 2,
                        breakdown := breakdown w0 @ [(''Escalera'', 1 / 2)]\<rparr>
                else w0);
          w2 = (if length fls = 0
                then w1\<lparr>wambitions := wambitions w1 @ [no_flowers_end],
                        totalPayout := totalPayout w1 + 1 / 4,
                        breakdown := breakdown w1 @ [(''No Flowers'', 1 / 4)]\<rparr>
                else w1);
          concealedMelds = length (filter isConcealed ms)
      in if concealedMelds = length ms \<and> length ms > 0
         then w2\<lparr>wambitions := wambitions w2 @ [all_up],
                 totalPayout := totalPayout w2 + 1 / 4,
                 breakdown := breakdown w2 @ [(''All Up'', 1 / 4)]\<rparr>
         else w2)"

text \<open>
  \<^verbatim>\<open>isWinningHand\<close>. \<open>None\<close> is the \<^verbatim>\<open>TypeError\<close> of \<^verbatim>\<open>isEscalera\<close>; every other path
  returns a result.
\<close>

definition isWinningHand :: "tile list \<Rightarrow> meld list \<Rightarrow> tile list \<Rightarrow> winCondition option" where
  "isWinningHand hnd ms fls =
     (let totalTiles = length hnd + sumMeldTiles ms in
      if totalTiles \<noteq> 17 then Some notWinning
      else if isSietePares hnd then
        Some \<lparr>isValid = True, handType = ''Siete Pares'', wambitions = [todas, siete_pares],
              totalPayout = 3 / 2, breakdown = [(''Basic Win'', 1), (''Siete Pares'', 1 / 2)]\<rparr>
      else let standardWin = checkStandardWin hnd ms in
        if fst standardWin then
          (case isEscalera ms of
             None \<Rightarrow> None
           | Some esc \<Rightarrow> Some (standardAmbitions esc ms fls (snd standardWin)))
        else Some notWinning)"

section \<open>The tile set\<close>

text \<open>
  Modelled from the spec: \<^verbatim>\<open>createTileSet\<close> lives in \<^verbatim>\<open>@/utils/mahjongTiles\<close>, which is not
  among the sources. The rules document lists 144 tiles: the values 1 to 9 of circles,
  bamboos and characters in four copies each, four winds and three dragons in four copies
  each, and one copy of each of four flowers and four seasons, the latter eight being the
  bonus tiles. These are the five shapes of tile it makes.
\<close>

definition numberTile :: "int \<Rightarrow> suit \<Rightarrow> int \<Rightarrow> tile" where
  "numberTile i s v =
     \<lparr>tid = i, suit = s, tvalue = Some v, wind = None, dragon = None, flower = None,
      season = None, isBonus = False, isRecentlyDrawn = False, isRecentlyDiscarded = False\<rparr>"

definition windTile :: "int \<Rightarrow> wind \<Rightarrow> tile" where
  "windTile i w =
     \<lparr>tid = i, suit = Winds, tvalue = None, wind = Some w, dragon = None, flower = None,
      season = None, isBonus = False, isRecentlyDrawn = False, isRecentlyDiscarded = False\<rparr>"

definition dragonTile :: "int \<Rightarrow> dragon \<Rightarrow> tile" where
  "dragonTile i d =
     \<lparr>tid = i, suit = Dragons, tvalue = None, wind = None, dragon = Some d, flower = None,
      season = None, isBonus = False, isRecentlyDrawn = False, isRecentlyDiscarded = False\<rparr>"

definition flowerTile :: "int \<Rightarrow> flower \<Rightarrow> tile" where
  "flowerTile i f =
     \<lparr>tid = i, suit = FlowerSuit, tvalue = None, wind = None, dragon = None, flower = Some f,
      season = None, isBonus = True, isRecentlyDrawn = False, isRecentlyDiscarded = False\<rparr>"

definition seasonTile :: "int \<Rightarrow> season \<Rightarrow> tile" where
  "seasonTile i s =
     \<lparr>tid = i, suit = SeasonSuit, tvalue = None, wind = None, dragon = None, flower = None,
      season = Some s, isBonus = True, isRecentlyDrawn = False, isRecentlyDiscarded = False\<rparr>"

section \<open>Turn engine\<close>

text \<open>
  The engine mutates one \<^verbatim>\<open>GameState\<close> object in place; here every operation takes the
  state and returns the new one. Reading \<^verbatim>\<open>gameState.players[playerIndex]\<close> outside the
  array gives \<^verbatim>\<open>undefined\<close>, and the first access to its \<^verbatim>\<open>hand\<close> throws a
  \<^verbatim>\<open>TypeError\<close> before anything has been written: that outcome is \<open>None\<close>. Tiles are
  values: a tile stored in \<^verbatim>\<open>lastDiscard\<close>, \<^verbatim>\<open>lastDrawnTile\<close>, a discard list or a meld
  keeps the markers it had when it was stored. The calls to \<^verbatim>\<open>console.log\<close> are left out.
\<close>

text \<open>\<^verbatim>\<open>Array.prototype.findIndex\<close>, with \<open>None\<close> for \<^verbatim>\<open>-1\<close>.\<close>

fun findIndex :: "('a \<Rightarrow> bool) \<Rightarrow> 'a list \<Rightarrow> nat option" where
  "findIndex P [] = None"
| "findIndex P (x # xs) = (if P x then Some 0 else map_option Suc (findIndex P xs))"

text \<open>
  \<^verbatim>\<open>const i = xs.findIndex(t => t.id === id); if (i !== -1) xs.splice(i, 1)\<close>: the first
  tile with the id leaves the list.
\<close>

fun removeFirstId :: "int \<Rightarrow> tile list \<Rightarrow> tile list" where
  "removeFirstId i [] = []"
| "removeFirstId i (t # ts) = (if tid t = i then ts else t # removeFirstId i ts)"

definition clearRecentlyDrawn :: "tile list \<Rightarrow> tile list" where
  "clearRecentlyDrawn ts = map (\<lambda>t. t\<lparr>isRecentlyDrawn := False\<rparr>) ts"

text \<open>
  The \<^verbatim>\<open>while\<close> loop of \<^verbatim>\<open>drawTile\<close> over the wall: bonus tiles go to the flowers, the
  first other tile is marked and ends the loop. The result is the rest of the wall, the
  flowers and the tile drawn, if any.
\<close>

fun drawLoop :: "tile list \<Rightarrow> tile list \<Rightarrow> tile list \<times> tile list \<times> tile option" where
  "drawLoop [] fls = ([], fls, None)"
| "drawLoop (t # w) fls =
     (if isBonus t then drawLoop w (fls @ [t])
      else (w, fls, Some (t\<lparr>isRecentlyDrawn := True\<rparr>)))"

definition drawTile :: "gameState \<Rightarrow> nat \<Rightarrow> (gameState \<times> tile option) option" where
  "drawTile s playerIndex =
     (if length (wall s) = 0 then Some (s, None)
      else if playerIndex \<ge> length (players s) then None
      else
        let p = players s ! playerIndex;
            h = clearRecentlyDrawn (hand p)
        in case drawLoop (wall s) (flowers p) of
             (w, fls, None) \<Rightarrow>
               Some (s\<lparr>players := (players s)[playerIndex := p\<lparr>hand := h, flowers := fls\<rparr>],
                       wall := w\<rparr>, None)
           | (w, fls, Some t) \<Rightarrow>
               Some (s\<lparr>players := (players s)[playerIndex := p\<lparr>hand := h @ [t], flowers := fls\<rparr>],
                       wall := w, lastDrawnTile := Some t, phase := Discard,
                       hasDrawnThisTurn := True\<rparr>, Some t))"

text \<open>
  \<^verbatim>\<open>discardTile\<close>. The only test is whether the hand holds a tile with the id of the
  argument. The tile pushed to the discards is the argument, marked as recently discarded.
\<close>

definition discardTile :: "gameState \<Rightarrow> nat \<Rightarrow> tile \<Rightarrow> gameState option" where
  "discardTile s playerIndex t =
     (if playerIndex \<ge> length (players s) then None
      else
        let p = players s ! playerIndex in
        case findIndex (\<lambda>x. tid x = tid t) (hand p) of
          None \<Rightarrow> Some s
        | Some tileIndex \<Rightarrow>
            let h = clearRecentlyDrawn (hand p);
                d = t\<lparr>isRecentlyDiscarded := True\<rparr>;
                p' = p\<lparr>hand := take tileIndex h @ drop (Suc tileIndex) h,
                       discards := discards p @ [d]\<rparr>
            in Some (s\<lparr>players := (players s)[playerIndex := p'],
                       discardPile := discardPile s @ [d],
                       lastDiscard := Some d,
                       lastDrawnTile := None,
                       currentPlayer := (currentPlayer s + 1) mod 4,
                       phase := Draw,
                       hasDrawnThisTurn := False\<rparr>))"

section \<open>Claims\<close>

text \<open>
  \<^verbatim>\<open>canFormSequence\<close>. The value of the discard is read with \<^verbatim>\<open>discard.value!\<close>; when it
  is \<^verbatim>\<open>undefined\<close> each of the three comparisons with a bound is false and so is the
  result.
\<close>

definition hasValue :: "tile list \<Rightarrow> int \<Rightarrow> bool" where
  "hasValue suitTiles v = list_ex (\<lambda>t. tvalue t = Some v) suitTiles"

definition canFormSequence :: "tile list \<Rightarrow> tile \<Rightarrow> bool" where
  "canFormSequence hnd discard =
     (if \<not> numbered (suit discard) then False
      else
        let suitTiles = filter (\<lambda>t. suit t = suit discard \<and> truthy (tvalue t)) hnd in
        case tvalue discard of
          None \<Rightarrow> False
        | Some discardValue \<Rightarrow>
            if discardValue \<le> 7 \<and> hasValue suitTiles (discardValue + 1)
               \<and> hasValue suitTiles (discardValue + 2) then True
            else if discardValue \<ge> 2 \<and> discardValue \<le> 8 \<and> hasValue suitTiles (discardValue - 1)
               \<and> hasValue suitTiles (discardValue + 1) then True
            else if discardValue \<ge> 3 \<and> hasValue suitTiles (discardValue - 1)
               \<and> hasValue suitTiles (discardValue - 2) then True
            else False)"

text \<open>
  \<^verbatim>\<open>formChow\<close>: the same three patterns, each returning the discard and the first tile of
  each of the two other values, sorted by value with the stable sort of the array.
\<close>

definition findValue :: "tile list \<Rightarrow> int \<Rightarrow> tile option" where
  "findValue suitTiles v = find (\<lambda>t. tvalue t = Some v) suitTiles"

definition sortByValue :: "tile list \<Rightarrow> tile list" where
  "sortByValue ts = sort_key (\<lambda>t. the (tvalue t)) ts"

text \<open>
  One pattern: \<^verbatim>\<open>tile1 = suitTiles.find(..); tile2 = suitTiles.find(..)\<close> under the
  bound on the value of the discard, with \<^verbatim>\<open>if (tile1 && tile2)\<close>.
\<close>

definition chowPattern :: "tile list \<Rightarrow> bool \<Rightarrow> int \<Rightarrow> int \<Rightarrow> (tile \<times> tile) option" where
  "chowPattern suitTiles inRange a b =
     (if inRange then
        (case findValue suitTiles a of
           None \<Rightarrow> None
         | Some tile1 \<Rightarrow>
             (case findValue suitTiles b of None \<Rightarrow> None | Some tile2 \<Rightarrow> Some (tile1, tile2)))
      else None)"

definition formChow :: "tile list \<Rightarrow> tile \<Rightarrow> tile list option" where
  "formChow hnd discard =
     (if \<not> numbered (suit discard) then None
      else
        let suitTiles = filter (\<lambda>t. suit t = suit discard \<and> truthy (tvalue t)) hnd in
        case tvalue discard of
          None \<Rightarrow> None
        | Some discardValue \<Rightarrow>
            (case chowPattern suitTiles (discardValue \<le> 7) (discardValue + 1) (discardValue + 2) of
               Some (tile1, tile2) \<Rightarrow> Some (sortByValue [discard, tile1, tile2])
             | None \<Rightarrow>
            (case chowPattern suitTiles (discardValue \<ge> 2 \<and> discardValue \<le> 8)
                    (discardValue - 1) (discardValue + 1) of
               Some (tile1, tile2) \<Rightarrow> Some (sortByValue [tile1, discard, tile2])
             | None \<Rightarrow>
            (case chowPattern suitTiles (discardValue \<ge> 3) (discardValue - 2) (discardValue - 1) of
               Some (tile1, tile2) \<Rightarrow> Some (sortByValue [tile1, tile2, discard])
             | None \<Rightarrow> None))))"

text \<open>
  \<^verbatim>\<open>isValidClaim\<close>. The claimant is the first player with the id of the claim. \<open>None\<close> is
  the \<^verbatim>\<open>TypeError\<close> that the win detector can throw.
\<close>

definition isValidClaim :: "gameState \<Rightarrow> claimAction \<Rightarrow> bool option" where
  "isValidClaim s claim =
     (case (find (\<lambda>p. pid p = claimant claim) (players s), lastDiscard s) of
        (Some p, Some ld) \<Rightarrow>
          (case ctype claim of
             ClaimChow \<Rightarrow> Some (canFormSequence (hand p) ld)
           | ClaimPung \<Rightarrow> Some (length (filter (\<lambda>t. tilesMatch t ld) (hand p)) \<ge> 2)
           | ClaimKong \<Rightarrow> Some (length (filter (\<lambda>t. tilesMatch t ld) (hand p)) \<ge> 3)
           | ClaimWin \<Rightarrow> map_option isValid (isWinningHand (hand p @ [ld]) (melds p) (flowers p)))
      | _ \<Rightarrow> Some False)"

definition recordAmbition :: "gameState \<Rightarrow> string \<Rightarrow> ambitionType \<Rightarrow> rat \<Rightarrow> gameState" where
  "recordAmbition s playerId' type' payout' =
     s\<lparr>ambitions := ambitions s @
         [\<lparr>playerId = playerId', atype = type', payout = payout',
           isInstant = (type' \<in> set [kang, secret, sagasa, thirteen_flowers, no_flowers_start])\<rparr>]\<rparr>"

text \<open>\<^verbatim>\<open>group.forEach(tile => remove the first hand tile with tile.id)\<close>\<close>

definition removeEach :: "tile list \<Rightarrow> tile list \<Rightarrow> tile list" where
  "removeEach grp hnd = foldl (\<lambda>h t. removeFirstId (tid t) h) hnd grp"

text \<open>
  The part that the chow, pung and kong cases share: the discard leaves the shared discard
  pile, the tiles of the claimant leave the hand, and the meld is appended with
  \<^verbatim>\<open>claimedFrom\<close> the current player. The list of the discarder is not touched.
\<close>

definition takeMeld ::
  "gameState \<Rightarrow> nat \<Rightarrow> tile \<Rightarrow> tile list \<Rightarrow> meldType \<Rightarrow> tile list \<Rightarrow> gameState" where
  "takeMeld s playerIndex ld handTiles mt meldTiles =
     (let p = players s ! playerIndex;
          p' = p\<lparr>hand := removeEach handTiles (hand p),
                 melds := melds p @ [\<lparr>mtype = mt, tiles = meldTiles, isConcealed = False,
                                       claimedFrom = Some (currentPlayer s)\<rparr>]\<rparr>
      in s\<lparr>discardPile := removeFirstId (tid ld) (discardPile s),
            players := (players s)[playerIndex := p']\<rparr>)"

text \<open>The four assignments that end the chow, pung and kong cases.\<close>

definition claimantToDiscard :: "gameState \<Rightarrow> nat \<Rightarrow> gameState" where
  "claimantToDiscard s playerIndex =
     s\<lparr>currentPlayer := playerIndex, phase := Discard, lastDiscard := None,
       hasDrawnThisTurn := True\<rparr>"

text \<open>
  \<^verbatim>\<open>processClaim\<close>. The result is the new state and the boolean returned; a rejected claim
  returns the state as it was.
\<close>

definition processClaim :: "gameState \<Rightarrow> claimAction \<Rightarrow> (gameState \<times> bool) option" where
  "processClaim s claim =
     (case isValidClaim s claim of
        None \<Rightarrow> None
      | Some False \<Rightarrow> Some (s, False)
      | Some True \<Rightarrow>
          (case (findIndex (\<lambda>p. pid p = claimant claim) (players s), lastDiscard s) of
             (Some playerIndex, Some ld) \<Rightarrow>
               let p = players s ! playerIndex in
               (case ctype claim of
                  ClaimChow \<Rightarrow>
                    (case formChow (hand p) ld of
                       Some chowTiles \<Rightarrow>
                         Some (claimantToDiscard
                                 (takeMeld s playerIndex ld
                                    (filter (\<lambda>t. tid t \<noteq> tid ld) chowTiles) Chow chowTiles)
                                 playerIndex, True)
                     | None \<Rightarrow> Some (s, False))
                | ClaimPung \<Rightarrow>
                    (let pungTiles = take 2 (filter (\<lambda>t. tilesMatch t ld) (hand p)) in
                     if length pungTiles = 2 then
                       Some (claimantToDiscard
                               (recordAmbition
                                  (takeMeld s playerIndex ld pungTiles Pung (ld # pungTiles))
                                  (claimant claim) kang (1 / 4))
                               playerIndex, True)
                     else Some (s, False))
                | ClaimKong \<Rightarrow>
                    (let kongTiles = take 3 (filter (\<lambda>t. tilesMatch t ld) (hand p)) in
                     if length kongTiles = 3 then
                       (case drawTile (takeMeld s playerIndex ld kongTiles Kong (ld # kongTiles))
                               playerIndex of
                          None \<Rightarrow> None
                        | Some (s', drawn) \<Rightarrow>
                            Some (claimantToDiscard
                                    (recordAmbition s' (claimant claim) kang (1 / 4))
                                    playerIndex, True))
                     else Some (s, False))
                | ClaimWin \<Rightarrow>
                    (case isWinningHand (hand p @ [ld]) (melds p) (flowers p) of
                       None \<Rightarrow> None
                     | Some winCondition \<Rightarrow>
                         if isValid winCondition then
                           Some (foldl (\<lambda>g ambition.
                                          recordAmbition g (claimant claim) ambition
                                            (getAmbitionPayout ambition))
                                   (s\<lparr>status := Finished, winner := Some playerIndex\<rparr>)
                                   (wambitions winCondition), True)
                         else Some (s, False)))
           | _ \<Rightarrow> Some (s, False)))"

section \<open>Discard scoring of the heuristic player\<close>

text \<open>
  The scores are sums of small integers, which JavaScript numbers hold exactly; they are
  integers here.
\<close>

definition honor :: "tile \<Rightarrow> bool" where
  "honor t \<longleftrightarrow> suit t = Winds \<or> suit t = Dragons"

text \<open>\<^verbatim>\<open>tile.value && tile.value >= 4 && tile.value <= 6\<close>\<close>

definition middle :: "tile \<Rightarrow> bool" where
  "middle t \<longleftrightarrow> (case tvalue t of None \<Rightarrow> False | Some v \<Rightarrow> v \<noteq> 0 \<and> v \<ge> 4 \<and> v \<le> 6)"

definition evaluateSequencePotential :: "tile \<Rightarrow> tile list \<Rightarrow> int" where
  "evaluateSequencePotential t hnd =
     (if \<not> truthy (tvalue t) \<or> \<not> numbered (suit t) then 0
      else
        let suitTiles = filter (\<lambda>x. suit x = suit t \<and> truthy (tvalue x)) hnd;
            v = the (tvalue t);
            hasLower = hasValue suitTiles (v - 1);
            hasHigher = hasValue suitTiles (v + 1);
            hasLower2 = hasValue suitTiles (v - 2);
            hasHigher2 = hasValue suitTiles (v + 2)
        in (if hasLower \<and> hasHigher then 30 else 0)
           + (if hasLower \<or> hasHigher then 15 else 0)
           + (if hasLower2 \<or> hasHigher2 then 10 else 0))"

definition evaluateDangerLevel :: "tile \<Rightarrow> gameState \<Rightarrow> int" where
  "evaluateDangerLevel t s =
     (let allDiscards = concat (map discards (players s));
          sameTypeDiscards = filter (\<lambda>x. tilesMatch x t) allDiscards
      in - (int (length sameTypeDiscards) * 5)
         + (if middle t then 10 else 0)
         + (if honor t then - 5 else 0))"

definition evaluateDiscardValue :: "tile \<Rightarrow> player \<Rightarrow> gameState \<Rightarrow> int" where
  "evaluateDiscardValue t p s =
     (let base = (if honor t then 20 else 10);
          remainingHand = filter (\<lambda>x. tid x \<noteq> tid t) (hand p);
          matchingTiles = filter (\<lambda>x. tilesMatch x t) remainingHand;
          triplets = (if length matchingTiles \<ge> 2 then - 50
                      else if length matchingTiles = 1 then - 25 else 0);
          sequenceValue = (if numbered (suit t) \<and> truthy (tvalue t)
                           then evaluateSequencePotential t remainingHand else 0);
          dangerValue = evaluateDangerLevel t s;
          terminal = (if tvalue t = Some 1 \<or> tvalue t = Some 9 then 5 else 0);
          flexible = (if middle t then - 5 else 0)
      in base + triplets - sequenceValue + dangerValue + terminal + flexible)"

datatype strategy = pairs | sequences | mixed

record winningAnalysis =
  tilesAwayFromWin :: int
  potentialWinningTiles :: "tile list"
  bestStrategy :: strategy

text \<open>
  \<^verbatim>\<open>evaluateDiscardValueForWin\<close>, the score used when the player is at most two tiles from
  winning. Its two branches count the other hand tiles with the same suit, value, wind and
  dragon.
\<close>

definition sameKindOthers :: "tile \<Rightarrow> tile list \<Rightarrow> tile list" where
  "sameKindOthers t hnd =
     filter (\<lambda>x. suit x = suit t \<and> tvalue x = tvalue t \<and> wind x = wind t \<and> dragon x = dragon t
                  \<and> tid x \<noteq> tid t) hnd"

definition evaluateDiscardValueForWin ::
  "tile \<Rightarrow> player \<Rightarrow> gameState \<Rightarrow> winningAnalysis \<Rightarrow> int" where
  "evaluateDiscardValueForWin t p s wa =
     (if bestStrategy wa = pairs then
        (let matchingTiles = sameKindOthers t (hand p)
         in 50 + (if length matchingTiles = 1 then 100
                  else if length matchingTiles = 0 then - 20 else 0))
      else
        (let sequencePotential =
               (if numbered (suit t) \<and> truthy (tvalue t)
                then evaluateSequencePotential t (filter (\<lambda>x. tid x \<noteq> tid t) (hand p)) * 2
                else 0);
             matchingTiles = sameKindOthers t (hand p)
         in 50 + sequencePotential
            + (if length matchingTiles \<ge> 2 then 150
               else if length matchingTiles = 1 then 75 else 0)))"

section \<open>Decompositions and example hands\<close>

text \<open>
  What the specification calls a standard decomposition, in its own words: a trio is three
  matching tiles or three consecutive values of one numbered suit, a pair is two matching
  tiles, and the unmelded tiles are, as a multiset, the tiles of the needed number of trios
  and of one pair.
\<close>

definition isTrio :: "tile list \<Rightarrow> bool" where
  "isTrio g =
     (case g of
        [a, b, c] \<Rightarrow>
          (tilesMatch a b \<and> tilesMatch b c)
          \<or> (numbered (suit a) \<and> suit b = suit a \<and> suit c = suit a
              \<and> (case tvalue a of None \<Rightarrow> False
                  | Some v \<Rightarrow> tvalue b = Some (v + 1) \<and> tvalue c = Some (v + 2)))
      | _ \<Rightarrow> False)"

definition isPair :: "tile list \<Rightarrow> bool" where
  "isPair g = (case g of [a, b] \<Rightarrow> tilesMatch a b | _ \<Rightarrow> False)"

definition standardDecomposition ::
  "tile list \<Rightarrow> nat \<Rightarrow> tile list list \<Rightarrow> tile list \<Rightarrow> bool" where
  "standardDecomposition hnd n gs p \<longleftrightarrow>
     length gs = n \<and> list_all isTrio gs \<and> isPair p \<and> mset hnd = mset (concat gs @ p)"

text \<open>
  A player who has claimed four pungs of circles and holds two south winds and the two and
  three of bamboos, waiting for the one or the four of bamboos.
\<close>

definition pungOf :: "int \<Rightarrow> suit \<Rightarrow> int \<Rightarrow> meld" where
  "pungOf i s v =
     \<lparr>mtype = Pung, tiles = [numberTile i s v, numberTile (i + 1) s v, numberTile (i + 2) s v],
      isConcealed = False, claimedFrom = Some 0\<rparr>"

definition fourPungs :: "meld list" where
  "fourPungs = [pungOf 0 Circles 1, pungOf 3 Circles 2, pungOf 6 Circles 3, pungOf 9 Circles 4]"

definition waitingHand :: "tile list" where
  "waitingHand =
     [windTile 12 South, windTile 13 South, numberTile 14 Bamboos 2, numberTile 15 Bamboos 3]"

definition bamboo1 :: tile where
  "bamboo1 = numberTile 16 Bamboos 1"

definition bamboo4 :: tile where
  "bamboo4 = numberTile 17 Bamboos 4"

text \<open>The number of tiles of a hand that carry a given grouping key.\<close>

definition kindCount :: "tileKey \<Rightarrow> tile list \<Rightarrow> nat" where
  "kindCount k hnd = length (filter (\<lambda>t. keyOf t = k) hnd)"

text \<open>
  The example of the rules document for Siete Pares: the pairs 1-1 to 7-7 and the triplet
  8-8-8 of circles.
\<close>

definition sevenPairsHand :: "tile list" where
  "sevenPairsHand =
     [numberTile 0 Circles 1, numberTile 1 Circles 1, numberTile 2 Circles 2,
      numberTile 3 Circles 2, numberTile 4 Circles 3, numberTile 5 Circles 3,
      numberTile 6 Circles 4, numberTile 7 Circles 4, numberTile 8 Circles 5,
      numberTile 9 Circles 5, numberTile 10 Circles 6, numberTile 11 Circles 6,
      numberTile 12 Circles 7, numberTile 13 Circles 7, numberTile 14 Circles 8,
      numberTile 15 Circles 8, numberTile 16 Circles 8]"

definition circlesKey :: "int \<Rightarrow> tileKey" where
  "circlesKey v = (Circles, Some v, None, None)"

text \<open>
  What the specification calls a valid chow, in its own words: the discard is of a numbered
  suit and the hand holds two tiles of that suit whose values are the two above the discard,
  the one below and the one above, or the two below.
\<close>

definition chowPossible :: "tile list \<Rightarrow> tile \<Rightarrow> bool" where
  "chowPossible hnd d \<longleftrightarrow>
     numbered (suit d) \<and>
     (case tvalue d of
        None \<Rightarrow> False
      | Some v \<Rightarrow>
          (\<exists>a\<in>set hnd. \<exists>b\<in>set hnd. suit a = suit d \<and> suit b = suit d \<and>
             ((tvalue a = Some (v + 1) \<and> tvalue b = Some (v + 2))
              \<or> (tvalue a = Some (v - 1) \<and> tvalue b = Some (v + 1))
              \<or> (tvalue a = Some (v - 2) \<and> tvalue b = Some (v - 1)))))"

text \<open>A tile of a numbered suit is well formed when it has a value from 1 to 9.\<close>

definition wellFormed :: "tile \<Rightarrow> bool" where
  "wellFormed t \<longleftrightarrow>
     (if numbered (suit t) then (case tvalue t of None \<Rightarrow> False | Some v \<Rightarrow> 1 \<le> v \<and> v \<le> 9)
      else True)"

text \<open>Example seats and tables: a player with a hand and melds, and a state around four players.\<close>

definition seat :: "string \<Rightarrow> tile list \<Rightarrow> meld list \<Rightarrow> player" where
  "seat i h ms = \<lparr>pid = i, hand = h, melds = ms, flowers = [], discards = [], isDealer = False\<rparr>"

definition table ::
  "player list \<Rightarrow> tile list \<Rightarrow> tile list \<Rightarrow> tile option \<Rightarrow> nat \<Rightarrow> phase \<Rightarrow> gameState" where
  "table ps w pile ld cur ph =
     \<lparr>players = ps, currentPlayer = cur, dealer = 0, wall = w, flowerWall = [],
      discardPile = pile, lastDiscard = ld, lastDrawnTile = None, round = 1,
      prevailingWind = East, status = Playing, winner = None, scores = [0, 0, 0, 0],
      ambitions = [], phase = ph, hasDrawnThisTurn = False\<rparr>"

text \<open>
  Seat 0 has just discarded the four of bamboos and the turn has passed to seat 1, who is
  to draw; seat 2 holds the waiting hand and the four pungs.
\<close>

definition afterDiscard :: gameState where
  "afterDiscard =
     table [seat ''a'' [windTile 20 West] [],
            seat ''b'' [numberTile 21 Characters 5, numberTile 22 Characters 5] [],
            seat ''c'' waitingHand fourPungs,
            seat ''d'' [windTile 23 North] []]
       [numberTile 30 Circles 9] [bamboo4] (Some bamboo4) 1 Draw"




text \<open>
  The other hand tiles that match a tile, as \<^verbatim>\<open>evaluateDiscardValue\<close> counts them: the
  tiles of the hand with another id that match it.
\<close>

definition otherMatches :: "tile \<Rightarrow> player \<Rightarrow> tile list" where
  "otherMatches t p = filter (\<lambda>x. tilesMatch x t) (filter (\<lambda>x. tid x \<noteq> tid t) (hand p))"

definition pairsAnalysis :: winningAnalysis where
  "pairsAnalysis = \<lparr>tilesAwayFromWin = 1, potentialWinningTiles = [], bestStrategy = pairs\<rparr>"

definition claimBy :: "claimType \<Rightarrow> string \<Rightarrow> claimAction" where
  "claimBy k i = \<lparr>ctype = k, claimant = i\<rparr>"






section \<open>Setting up a game\<close>

text \<open>
  Modelled from the spec: \<^verbatim>\<open>createTileSet\<close> (see the section on the tile set), here with
  the position in the list as the id, the four copies of a kind standing together.
\<close>

definition fourCopies :: "int \<Rightarrow> (int \<Rightarrow> tile) \<Rightarrow> tile list" where
  "fourCopies i mk = [mk i, mk (i + 1), mk (i + 2), mk (i + 3)]"

definition numberedSuit :: "int \<Rightarrow> suit \<Rightarrow> tile list" where
  "numberedSuit base s =
     concat (map (\<lambda>v. fourCopies (base + 4 * (v - 1)) (\<lambda>i. numberTile i s v))
               [1, 2, 3, 4, 5, 6, 7, 8, 9])"

definition createTileSet :: "tile list" where
  "createTileSet =
     numberedSuit 0 Circles @ numberedSuit 36 Bamboos @ numberedSuit 72 Characters
     @ fourCopies 108 (\<lambda>i. windTile i East) @ fourCopies 112 (\<lambda>i. windTile i South)
     @ fourCopies 116 (\<lambda>i. windTile i West) @ fourCopies 120 (\<lambda>i. windTile i North)
     @ fourCopies 124 (\<lambda>i. dragonTile i Red) @ fourCopies 128 (\<lambda>i. dragonTile i Green)
     @ fourCopies 132 (\<lambda>i. dragonTile i White)
     @ [flowerTile 136 Plum, flowerTile 137 Orchid, flowerTile 138 Chrysanthemum,
        flowerTile 139 BambooFlower, seasonTile 140 Spring, seasonTile 141 Summer,
        seasonTile 142 Autumn, seasonTile 143 Winter]"

text \<open>
  The \<^verbatim>\<open>for\<close> loop of \<^verbatim>\<open>ensureCorrectHandSize\<close> over the hand, from the last index down
  to 0. A bonus tile at the index is moved to the flowers and, if the wall is not empty, the
  front of the wall is appended to the hand. The state is the hand, the flowers, the wall
  and the flag \<^verbatim>\<open>hasFlowers\<close>; the first argument is the number of indices still to visit.
  The index is always inside the hand, since a removal at an index leaves the tiles below
  it in place.
\<close>

fun flowerScan ::
  "nat \<Rightarrow> tile list \<times> tile list \<times> tile list \<times> bool
     \<Rightarrow> tile list \<times> tile list \<times> tile list \<times> bool" where
  "flowerScan 0 st = st"
| "flowerScan (Suc i) (h, fls, w, hasFlowers) =
     (if i < length h \<and> isBonus (h ! i) then
        (case w of
           [] \<Rightarrow> flowerScan i (take i h @ drop (Suc i) h, fls @ [h ! i], [], True)
         | replacement # w' \<Rightarrow>
             flowerScan i (take i h @ drop (Suc i) h @ [replacement], fls @ [h ! i], w', True))
      else flowerScan i (h, fls, w, hasFlowers))"

lemma flowerScan_measure:
  assumes "flowerScan n (h, fls, w, b) = (h', fls', w', b')" and "n \<le> length h"
  shows "length h' + length w' \<le> length h + length w
         \<and> (b' \<and> \<not> b \<longrightarrow> length h' + length w' < length h + length w)"
  using assms
proof (induction n arbitrary: h fls w b)
  case 0
  then show ?case by simp
next
  case (Suc i)
  show ?case
  proof (cases "isBonus (h ! i)")
    case False
    with Suc.prems have "flowerScan i (h, fls, w, b) = (h', fls', w', b')" by simp
    with Suc.IH[of h fls w b] Suc.prems(2) show ?thesis by simp
  next
    case True
    from Suc.prems(2) have len: "length (take i h @ drop (Suc i) h) = length h - 1"
      by simp
    show ?thesis
    proof (cases w)
      case Nil
      with True Suc.prems have run:
        "flowerScan i (take i h @ drop (Suc i) h, fls @ [h ! i], [], True) = (h', fls', w', b')"
        by simp
      have "i \<le> length (take i h @ drop (Suc i) h)" using len Suc.prems(2) by linarith
      from Suc.IH[OF run this] have "length h' + length w' \<le> length h - 1"
        using len by simp
      with Suc.prems(2) Nil show ?thesis by auto
    next
      case (Cons r u)
      with True Suc.prems have run:
        "flowerScan i (take i h @ drop (Suc i) h @ [r], fls @ [h ! i], u, True)
           = (h', fls', w', b')"
        by simp
      have "i \<le> length (take i h @ drop (Suc i) h @ [r])" using Suc.prems(2) by simp
      from Suc.IH[OF run this] have "length h' + length w' \<le> length h - 1 + 1 + length u"
        using len by simp
      with Suc.prems(2) Cons show ?thesis by auto
    qed
  qed
qed

text \<open>The \<^verbatim>\<open>while (hasFlowers)\<close> loop around it, which runs the scan at least once.\<close>

function replaceFlowers ::
  "tile list \<times> tile list \<times> tile list \<Rightarrow> tile list \<times> tile list \<times> tile list" where
  "replaceFlowers (h, fls, w) =
     (case flowerScan (length h) (h, fls, w, False) of
        (h', fls', w', hasFlowers) \<Rightarrow>
          if hasFlowers then replaceFlowers (h', fls', w') else (h', fls', w'))"
  by pat_completeness auto
termination
proof (relation "measure (\<lambda>(h, fls, w). length h + length w)")
  show "wf (measure (\<lambda>(h, fls, w). length h + length w))" by simp
next
  fix h fls w h' fls' w' :: "tile list" and r r' and hasFlowers :: bool
  assume "(h', r) = flowerScan (length h) (h, fls, w, False)" "(fls', r') = r"
    "(w', hasFlowers) = r'" "hasFlowers"
  then have "flowerScan (length h) (h, fls, w, False) = (h', fls', w', hasFlowers)"
    and "hasFlowers" by simp_all
  from flowerScan_measure[OF this(1)] this(2)
  show "((h', fls', w'), (h, fls, w)) \<in> measure (\<lambda>(h, fls, w). length h + length w)"
    by simp
qed

text \<open>
  The second loop, \<^verbatim>\<open>while (player.hand.length < 16 && gameState.wall.length > 0)\<close>: the
  front of the wall goes to the flowers if it is a bonus tile and to the hand otherwise.
\<close>

fun fillHand :: "tile list \<Rightarrow> tile list \<Rightarrow> tile list \<Rightarrow> tile list \<times> tile list \<times> tile list" where
  "fillHand h fls [] = (h, fls, [])"
| "fillHand h fls (t # w) =
     (if length h < 16 then
        (if isBonus t then fillHand h (fls @ [t]) w else fillHand (h @ [t]) fls w)
      else (h, fls, t # w))"

definition ensureCorrectHandSize :: "gameState \<Rightarrow> nat \<Rightarrow> gameState option" where
  "ensureCorrectHandSize s playerIndex =
     (if playerIndex \<ge> length (players s) then None
      else
        let p = players s ! playerIndex in
        case replaceFlowers (hand p, flowers p, wall s) of
          (h1, fls1, w1) \<Rightarrow>
            (case fillHand h1 fls1 w1 of
               (h2, fls2, w2) \<Rightarrow>
                 Some (s\<lparr>players := (players s)[playerIndex := p\<lparr>hand := h2, flowers := fls2\<rparr>],
                         wall := w2\<rparr>)))"

text \<open>
  The three nested loops that deal: four rounds, in each round the seats 0 to 3, four tiles
  for each. The state is the list of players and \<^verbatim>\<open>tileIndex\<close>; the list argument is the
  seat of every iteration in order. Reaching a seat that is not at the table while tiles are
  left throws.
\<close>

definition dealOrder :: "nat list" where
  "dealOrder = concat (replicate 4 (concat (map (replicate 4) [0, 1, 2, 3])))"

fun dealLoop :: "tile list \<Rightarrow> nat list \<Rightarrow> player list \<times> nat \<Rightarrow> (player list \<times> nat) option" where
  "dealLoop w [] st = Some st"
| "dealLoop w (playerIndex # rest) (ps, tileIndex) =
     (if tileIndex < length w then
        (if playerIndex < length ps then
           dealLoop w rest
             (ps[playerIndex := (ps ! playerIndex)
                   \<lparr>hand := hand (ps ! playerIndex) @ [w ! tileIndex]\<rparr>],
              tileIndex + 1)
         else None)
      else dealLoop w rest (ps, tileIndex))"

text \<open>\<^verbatim>\<open>players.forEach((player, index) => ensureCorrectHandSize(gameState, index))\<close>\<close>

fun forEachPlayer :: "nat list \<Rightarrow> gameState \<Rightarrow> gameState option" where
  "forEachPlayer [] s = Some s"
| "forEachPlayer (i # rest) s =
     (case ensureCorrectHandSize s i of None \<Rightarrow> None | Some s' \<Rightarrow> forEachPlayer rest s')"

text \<open>
  \<^verbatim>\<open>initializeGame\<close>. The tile set, the function \<^verbatim>\<open>shuffleTiles\<close> and the dealer index,
  which the code draws at random from 0 to 3, are parameters: \<^verbatim>\<open>shuffleTiles xs\<close> stands
  for the order in which the shuffle returns the list \<open>xs\<close>.
\<close>

definition initializeGame ::
  "tile list \<Rightarrow> (tile list \<Rightarrow> tile list) \<Rightarrow> nat \<Rightarrow> player list \<Rightarrow> gameState option" where
  "initializeGame tileSet shuffleTiles dealerIndex ps =
     (let tls = shuffleTiles tileSet;
          bonusTiles = filter isBonus tls;
          regularTiles = filter (\<lambda>t. \<not> isBonus t) tls;
          w = shuffleTiles regularTiles;
          fw = shuffleTiles bonusTiles;
          g = \<lparr>players = map (\<lambda>(index, p). p\<lparr>hand := [], melds := [], flowers := [],
                                             discards := [], isDealer := (index = dealerIndex)\<rparr>)
                           (enumerate 0 ps),
               currentPlayer = dealerIndex, dealer = dealerIndex, wall = [], flowerWall = [],
               discardPile = [], lastDiscard = None, lastDrawnTile = None, round = 1,
               prevailingWind = East, status = Playing, winner = None, scores = [0, 0, 0, 0],
               ambitions = [], phase = Discard, hasDrawnThisTurn = False\<rparr>
      in case dealLoop w dealOrder (players g, 0) of
           None \<Rightarrow> None
         | Some (dealt, tileIndex) \<Rightarrow>
             (case forEachPlayer [0..<length dealt]
                     (g\<lparr>players := dealt, wall := drop tileIndex w, flowerWall := fw\<rparr>) of
                None \<Rightarrow> None
              | Some g' \<Rightarrow> map_option fst (drawTile g' dealerIndex)))"

section \<open>Sequences of operations\<close>

datatype operation = DrawTile nat | DiscardTile nat tile | ProcessClaim claimAction

text \<open>
  A call that throws has written nothing, so the state after it is the state before it, and
  the caller goes on.
\<close>

fun applyOp :: "gameState \<Rightarrow> operation \<Rightarrow> gameState" where
  "applyOp s (DrawTile i) = (case drawTile s i of None \<Rightarrow> s | Some (s', t) \<Rightarrow> s')"
| "applyOp s (DiscardTile i t) = (case discardTile s i t of None \<Rightarrow> s | Some s' \<Rightarrow> s')"
| "applyOp s (ProcessClaim c) = (case processClaim s c of None \<Rightarrow> s | Some (s', b) \<Rightarrow> s')"

definition run :: "gameState \<Rightarrow> operation list \<Rightarrow> gameState" where
  "run s ops = foldl applyOp s ops"

section \<open>Counting tiles\<close>

text \<open>The sum of the claim: wall, hands, meld tiles, the discards of each player, flowers.\<close>

definition meldTiles :: "player \<Rightarrow> tile list" where
  "meldTiles p = concat (map tiles (melds p))"

definition claimedCount :: "gameState \<Rightarrow> nat" where
  "claimedCount s =
     length (wall s)
     + (\<Sum>p\<leftarrow>players s. length (hand p) + length (meldTiles p) + length (discards p)
                          + length (flowers p))"

text \<open>
  The sum that the engine conserves: wall, flower wall, the shared discard pile, hands,
  meld tiles and flowers.
\<close>

definition conservedCount :: "gameState \<Rightarrow> nat" where
  "conservedCount s =
     length (wall s) + length (flowerWall s) + length (discardPile s)
     + (\<Sum>p\<leftarrow>players s. length (hand p) + length (meldTiles p) + length (flowers p))"

text \<open>The ids of the tiles counted by it, as a multiset.\<close>

definition ids :: "tile list \<Rightarrow> int multiset" where
  "ids ts = mset (map tid ts)"

definition playerIds :: "player \<Rightarrow> int multiset" where
  "playerIds p = ids (hand p) + ids (meldTiles p) + ids (flowers p)"

definition stateIds :: "gameState \<Rightarrow> int multiset" where
  "stateIds s =
     ids (wall s) + ids (flowerWall s) + ids (discardPile s) + (\<Sum>p\<leftarrow>players s. playerIds p)"

text \<open>
  An outcome of the shuffle: the copies of each kind spread out, first copies first. Four
  players, and the first discard of the dealer, the four of circles.
\<close>

definition copyMajor :: "tile list \<Rightarrow> tile list" where
  "copyMajor ts = concat (map (\<lambda>c. filter (\<lambda>t. tid t mod 4 = c) ts) [0, 1, 2, 3])"

definition fourPlayers :: "player list" where
  "fourPlayers = [seat ''a'' [] [], seat ''b'' [] [], seat ''c'' [] [], seat ''d'' [] []]"

definition firstGame :: "gameState option" where
  "firstGame = initializeGame createTileSet copyMajor 0 fourPlayers"

definition playFirst :: "operation list \<Rightarrow> gameState option" where
  "playFirst ops = map_option (\<lambda>s. run s ops) firstGame"

definition circle4 :: tile where
  "circle4 = numberTile 12 Circles 4"

definition discardsOf :: "nat \<Rightarrow> gameState \<Rightarrow> tile list" where
  "discardsOf i s = discards (players s ! i)"

definition meldTilesOf :: "nat \<Rightarrow> gameState \<Rightarrow> tile list" where
  "meldTilesOf i s = meldTiles (players s ! i)"

text \<open>The first two moves of the example game: the dealer discards, seat 1 claims the chow.\<close>

definition firstMoves :: "operation list" where
  "firstMoves = [DiscardTile 0 circle4, ProcessClaim (claimBy ClaimChow ''b'')]"


section \<open>The win detector\<close>

lemma sumMeldTiles_sum_list: "sumMeldTiles ms = (\<Sum>m\<leftarrow>ms. length (tiles m))"
proof -
  have "foldl (\<lambda>sum m. sum + length (tiles m)) a ms = a + (\<Sum>m\<leftarrow>ms. length (tiles m))" for a
    by (induction ms arbitrary: a) auto
  then show ?thesis by (simp add: sumMeldTiles_def)
qed

text \<open>
  C6. Whenever the length of the hand plus the number of tiles in the melds is not 17,
  \<^verbatim>\<open>isWinningHand\<close> returns the rejecting result: not valid, empty hand type, no ambitions,
  payout 0 and an empty breakdown, whatever the flowers are. Totals of 16 and of 18 are
  instances.
\<close>

theorem isWinningHand_wrong_count:
  assumes "length hnd + (\<Sum>m\<leftarrow>ms. length (tiles m)) \<noteq> 17"
  shows "isWinningHand hnd ms fls =
           Some \<lparr>isValid = False, handType = [], wambitions = [], totalPayout = 0,
                 breakdown = []\<rparr>"
  using assms by (simp add: isWinningHand_def sumMeldTiles_sum_list notWinning_def)

theorem isWinningHand_wrong_count_witness:
  "length waitingHand + (\<Sum>m\<leftarrow>fourPungs. length (tiles m)) = 16
   \<and> isWinningHand waitingHand fourPungs [] =
       Some \<lparr>isValid = False, handType = [], wambitions = [], totalPayout = 0, breakdown = []\<rparr>
   \<and> length (waitingHand @ [bamboo1, bamboo4]) + (\<Sum>m\<leftarrow>fourPungs. length (tiles m)) = 18
   \<and> isWinningHand (waitingHand @ [bamboo1, bamboo4]) fourPungs [] =
       Some \<lparr>isValid = False, handType = [], wambitions = [], totalPayout = 0, breakdown = []\<rparr>"
proof -
  have a: "length waitingHand + (\<Sum>m\<leftarrow>fourPungs. length (tiles m)) = 16"
    by (simp add: waitingHand_def fourPungs_def pungOf_def)
  have b: "length (waitingHand @ [bamboo1, bamboo4]) + (\<Sum>m\<leftarrow>fourPungs. length (tiles m)) = 18"
    by (simp add: waitingHand_def fourPungs_def pungOf_def)
  from a have a': "length waitingHand + (\<Sum>m\<leftarrow>fourPungs. length (tiles m)) \<noteq> 17" by simp
  from b have b': "length (waitingHand @ [bamboo1, bamboo4])
                     + (\<Sum>m\<leftarrow>fourPungs. length (tiles m)) \<noteq> 17" by simp
  show ?thesis
    using a b isWinningHand_wrong_count[OF a', of "[]"] isWinningHand_wrong_count[OF b', of "[]"]
    by simp
qed

text \<open>
  C3. The claim is that \<^verbatim>\<open>checkStandardWin\<close> accepts exactly the hands that have a
  decomposition into the needed trios and a pair, whatever the order of the tiles. The
  search does not do that. Its loop over the start index stops two positions before the end
  of the list, and a sequence is only looked for from its lowest tile, so a run whose lowest
  tile stands in one of the last two positions is never tried. With four pungs formed, the
  hand south, south, bamboo 2, bamboo 3 and bamboo 1 last, as \<^verbatim>\<open>isValidClaim\<close> builds it
  when the bamboo 1 is the discard, is rejected, although bamboo 1-2-3 and the pair of
  souths decompose it; the same tiles with the bamboo 1 first are accepted.
\<close>

theorem checkStandardWin_misses_low_tile_last:
  "fst (checkStandardWin (waitingHand @ [bamboo1]) fourPungs) = False
   \<and> fst (checkStandardWin (bamboo1 # waitingHand) fourPungs) = True
   \<and> length (waitingHand @ [bamboo1]) + sumMeldTiles fourPungs = 17
   \<and> standardDecomposition (waitingHand @ [bamboo1]) (5 - length fourPungs)
        [[bamboo1, numberTile 14 Bamboos 2, numberTile 15 Bamboos 3]]
        [windTile 12 South, windTile 13 South]"
proof -
  have "fst (checkStandardWin (waitingHand @ [bamboo1]) fourPungs) = False"
    by code_simp
  moreover have "fst (checkStandardWin (bamboo1 # waitingHand) fourPungs) = True"
    by code_simp
  moreover have "length (waitingHand @ [bamboo1]) + sumMeldTiles fourPungs = 17"
    by (simp add: waitingHand_def fourPungs_def pungOf_def sumMeldTiles_def)
  moreover have "standardDecomposition (waitingHand @ [bamboo1]) (5 - length fourPungs)
        [[bamboo1, numberTile 14 Bamboos 2, numberTile 15 Bamboos 3]]
        [windTile 12 South, windTile 13 South]"
    by (simp add: standardDecomposition_def waitingHand_def fourPungs_def isTrio_def isPair_def
        bamboo1_def numberTile_def windTile_def tilesMatch_def numbered_def)
  ultimately show ?thesis by blast
qed

section \<open>Discard scoring\<close>

lemma evaluateSequencePotential_nonneg: "0 \<le> evaluateSequencePotential t hnd"
  by (simp add: evaluateSequencePotential_def Let_def)

lemma evaluateDangerLevel_le:
  "evaluateDangerLevel t s \<le> (if middle t then 10 else 0) + (if honor t then - 5 else 0)"
  by (simp add: evaluateDangerLevel_def Let_def)

lemma middle_not_terminal: "middle t \<Longrightarrow> tvalue t \<noteq> Some 1 \<and> tvalue t \<noteq> Some 9"
  by (auto simp: middle_def)

text \<open>The ordinary score never exceeds 20 and the conservative score is never below 30.\<close>

lemma evaluateDiscardValue_le: "evaluateDiscardValue t p s \<le> 20"
proof -
  have d: "evaluateDangerLevel t s \<le> (if middle t then 10 else 0) + (if honor t then - 5 else 0)"
    by (rule evaluateDangerLevel_le)
  have q: "0 \<le> evaluateSequencePotential t (filter (\<lambda>x. tid x \<noteq> tid t) (hand p))"
    by (rule evaluateSequencePotential_nonneg)
  show ?thesis
    using d q middle_not_terminal[of t]
    by (auto simp: evaluateDiscardValue_def Let_def split: if_splits)
qed

lemma evaluateDiscardValueForWin_ge: "30 \<le> evaluateDiscardValueForWin t p s wa"
proof -
  have q: "0 \<le> evaluateSequencePotential t (filter (\<lambda>x. tid x \<noteq> tid t) (hand p))"
    by (rule evaluateSequencePotential_nonneg)
  show ?thesis using q
    by (auto simp: evaluateDiscardValueForWin_def Let_def)
qed

section \<open>Siete Pares\<close>

lemma addTile_keys:
  "map fst (addTile t m) =
     (if keyOf t \<in> set (map fst m) then map fst m else map fst m @ [keyOf t])"
proof (induction m)
  case Nil
  show ?case by simp
next
  case (Cons e m)
  obtain k ts where e: "e = (k, ts)" by (cases e)
  show ?case using Cons by (simp add: e)
qed

lemma addTile_distinct: "distinct (map fst m) \<Longrightarrow> distinct (map fst (addTile t m))"
  by (simp add: addTile_keys)

lemma addTile_map_of:
  "map_of (addTile t m) k' =
     (if k' = keyOf t
      then Some ((case map_of m (keyOf t) of None \<Rightarrow> [] | Some ts \<Rightarrow> ts) @ [t])
      else map_of m k')"
proof (induction m)
  case Nil
  show ?case by simp
next
  case (Cons e m)
  obtain k ts where e: "e = (k, ts)" by (cases e)
  show ?case using Cons by (cases "k' = keyOf t") (auto simp: e)
qed

lemma tileCounts_snoc: "tileCounts (hnd @ [t]) = addTile t (tileCounts hnd)"
  by (simp add: tileCounts_def)

lemma tileCounts_distinct: "distinct (map fst (tileCounts hnd))"
proof (induction hnd rule: rev_induct)
  case Nil
  then show ?case by (simp add: tileCounts_def)
next
  case (snoc t hnd)
  then show ?case by (simp add: tileCounts_snoc addTile_distinct)
qed

lemma tileCounts_keys: "set (map fst (tileCounts hnd)) = keyOf ` set hnd"
proof (induction hnd rule: rev_induct)
  case Nil
  then show ?case by (simp add: tileCounts_def)
next
  case (snoc t hnd)
  then show ?case by (auto simp: tileCounts_snoc addTile_keys)
qed

lemma tileCounts_map_of:
  "map_of (tileCounts hnd) k =
     (if k \<in> keyOf ` set hnd then Some (filter (\<lambda>t. keyOf t = k) hnd) else None)"
proof (induction hnd rule: rev_induct)
  case Nil
  then show ?case by (simp add: tileCounts_def)
next
  case (snoc t hnd)
  show ?case
  proof (cases "k = keyOf t")
    case True
    show ?thesis
    proof (cases "keyOf t \<in> keyOf ` set hnd")
      case True
      with snoc \<open>k = keyOf t\<close> show ?thesis
        by (simp add: tileCounts_snoc addTile_map_of)
    next
      case False
      then have "\<forall>x\<in>set hnd. keyOf x \<noteq> keyOf t"
        by (metis image_eqI)
      then have "filter (\<lambda>x. keyOf x = keyOf t) hnd = []"
        by (simp add: filter_empty_conv)
      with False snoc \<open>k = keyOf t\<close> show ?thesis
        by (simp add: tileCounts_snoc addTile_map_of)
    qed
  next
    case False
    with snoc show ?thesis
      by (simp add: tileCounts_snoc addTile_map_of)
  qed
qed

lemma tileCounts_entries:
  "map (\<lambda>(k, ts). length ts) (tileCounts hnd) = map (\<lambda>k. kindCount k hnd) (map fst (tileCounts hnd))"
proof -
  have "length ts = kindCount k hnd" if "(k, ts) \<in> set (tileCounts hnd)" for k ts
  proof -
    from that have "map_of (tileCounts hnd) k = Some ts"
      using tileCounts_distinct by simp
    then show ?thesis
      by (auto simp: tileCounts_map_of kindCount_def split: if_splits)
  qed
  then show ?thesis by (auto simp: map_eq_conv)
qed

lemma sum_indicator:
  "distinct ks \<Longrightarrow> (\<Sum>k\<leftarrow>ks. if k = a then 1 else 0) = (if a \<in> set ks then 1 else (0::nat))"
  by (induction ks) auto

lemma length_by_kind:
  assumes "distinct ks" and "keyOf ` set hnd \<subseteq> set ks"
  shows "length hnd = (\<Sum>k\<leftarrow>ks. kindCount k hnd)"
  using assms(2)
proof (induction hnd)
  case Nil
  then show ?case by (simp add: kindCount_def)
next
  case (Cons t hnd)
  have "(\<Sum>k\<leftarrow>ks. kindCount k (t # hnd)) = (\<Sum>k\<leftarrow>ks. kindCount k hnd + (if k = keyOf t then 1 else 0))"
    by (rule arg_cong[where f=sum_list]) (auto simp: kindCount_def)
  also have "\<dots> = (\<Sum>k\<leftarrow>ks. kindCount k hnd) + (\<Sum>k\<leftarrow>ks. if k = keyOf t then 1 else 0)"
    by (simp add: sum_list_addf)
  also have "(\<Sum>k\<leftarrow>ks. if k = keyOf t then 1 else 0) = (1::nat)"
    using Cons.prems assms(1) by (simp add: sum_indicator)
  finally show ?case using Cons by simp
qed

lemma sortedCounts_seven_pairs:
  assumes d: "distinct (k0 # ks)" and l: "length ks = 7"
    and sub: "\<forall>t\<in>set hnd. keyOf t \<in> set (k0 # ks)"
    and c3: "kindCount k0 hnd = 3" and c2: "\<forall>k\<in>set ks. kindCount k hnd = 2"
  shows "sortedCounts hnd = [3, 2, 2, 2, 2, 2, 2, 2]"
proof -
  let ?keys = "map fst (tileCounts hnd)"
  have "k \<in> keyOf ` set hnd" if "k \<in> set (k0 # ks)" for k
  proof -
    from that c3 c2 have "kindCount k hnd > 0" by auto
    then show ?thesis by (auto simp: kindCount_def filter_empty_conv)
  qed
  then have sup: "set (k0 # ks) \<subseteq> keyOf ` set hnd" by blast
  have "keyOf ` set hnd \<subseteq> set (k0 # ks)" using sub by blast
  with sup have "keyOf ` set hnd = set (k0 # ks)" by (rule equalityI[rotated])
  then have "set ?keys = set (k0 # ks)" by (simp only: tileCounts_keys)
  with d have "mset ?keys = mset (k0 # ks)"
    using tileCounts_distinct set_eq_iff_mset_eq_distinct by blast
  then have "mset (map (\<lambda>k. kindCount k hnd) ?keys) = mset (map (\<lambda>k. kindCount k hnd) (k0 # ks))"
    by (metis mset_map)
  moreover have "map (\<lambda>k. kindCount k hnd) ks = replicate 7 2"
  proof -
    have "map (\<lambda>k. kindCount k hnd) ks = map (\<lambda>k. 2) ks" using c2 by simp
    also have "\<dots> = replicate 7 2" using l by (simp add: map_replicate_const)
    finally show ?thesis .
  qed
  ultimately have m: "mset (map (\<lambda>(k, ts). length ts) (tileCounts hnd)) = mset ([2, 2, 2, 2, 2, 2, 2, 3::nat])"
    using c3 by (simp add: tileCounts_entries numeral_eq_Suc)
  have "sort (map (\<lambda>(k, ts). length ts) (tileCounts hnd)) = [2, 2, 2, 2, 2, 2, 2, 3]"
    by (rule properties_for_sort[OF m[symmetric]]) simp
  then show ?thesis by (simp add: sortedCounts_def)
qed

lemma tilesMatch_keyOf:
  assumes "flower a = None" "season a = None" "flower b = None" "season b = None"
  shows "tilesMatch a b \<longleftrightarrow> keyOf a = keyOf b"
  using assms by (simp add: tilesMatch_def keyOf_def)

text \<open>
  C5. A hand made of seven pairs and one triplet, eight different kinds of tile in all, is
  accepted by \<^verbatim>\<open>isWinningHand\<close> as Siete Pares when no meld has been formed: the
  ambitions are exactly Todas and Siete Pares and the payout is 1.5, whatever the flowers
  are, so that no bonus of the standard win is added. The kind of a tile is its grouping
  key of suit, value, wind and dragon, which for the tiles that can be in a hand is the same
  as matching (\<open>tilesMatch_keyOf\<close>); \<open>k0\<close> is the kind of the triplet and \<open>ks\<close>
  are the kinds of the pairs. The hand then has 17 tiles.
\<close>

theorem isWinningHand_siete_pares:
  assumes d: "distinct (k0 # ks)" and l: "length ks = 7"
    and sub: "\<forall>t\<in>set hnd. keyOf t \<in> set (k0 # ks)"
    and c3: "kindCount k0 hnd = 3" and c2: "\<forall>k\<in>set ks. kindCount k hnd = 2"
  shows "length hnd = 17 \<and> isWinningHand hnd [] fls =
    Some \<lparr>isValid = True, handType = ''Siete Pares'', wambitions = [todas, siete_pares],
          totalPayout = 3 / 2, breakdown = [(''Basic Win'', 1), (''Siete Pares'', 1 / 2)]\<rparr>"
proof -
  have "length hnd = (\<Sum>k\<leftarrow>k0 # ks. kindCount k hnd)"
    using d sub by (intro length_by_kind) auto
  also have "map (\<lambda>k. kindCount k hnd) ks = replicate 7 2"
  proof -
    have "map (\<lambda>k. kindCount k hnd) ks = map (\<lambda>k. 2) ks" using c2 by simp
    also have "\<dots> = replicate 7 2" using l by (simp add: map_replicate_const)
    finally show ?thesis .
  qed
  then have "(\<Sum>k\<leftarrow>k0 # ks. kindCount k hnd) = 17"
    using c3 by (simp add: numeral_eq_Suc)
  finally have len: "length hnd = 17" .
  have "isSietePares hnd"
    using len sortedCounts_seven_pairs[OF assms]
    by (simp add: isSietePares_def Let_def)
  then show ?thesis using len by (simp add: isWinningHand_def sumMeldTiles_def)
qed

theorem isWinningHand_siete_pares_witness:
  "distinct (circlesKey 8 # map circlesKey [1, 2, 3, 4, 5, 6, 7])
   \<and> length (map circlesKey [1, 2, 3, 4, 5, 6, 7]) = 7
   \<and> list_all (\<lambda>t. keyOf t \<in> set (circlesKey 8 # map circlesKey [1, 2, 3, 4, 5, 6, 7]))
         sevenPairsHand
   \<and> kindCount (circlesKey 8) sevenPairsHand = 3
   \<and> list_all (\<lambda>k. kindCount k sevenPairsHand = 2) (map circlesKey [1, 2, 3, 4, 5, 6, 7])
   \<and> length sevenPairsHand = 17
   \<and> isWinningHand sevenPairsHand [] [] =
       Some \<lparr>isValid = True, handType = ''Siete Pares'', wambitions = [todas, siete_pares],
             totalPayout = 3 / 2, breakdown = [(''Basic Win'', 1), (''Siete Pares'', 1 / 2)]\<rparr>"
proof -
  have h1: "distinct (circlesKey 8 # map circlesKey [1, 2, 3, 4, 5, 6, 7])"
    by (simp add: circlesKey_def)
  have h2: "length (map circlesKey [1, 2, 3, 4, 5, 6, 7]) = 7" by simp
  have h3: "\<forall>t\<in>set sevenPairsHand.
              keyOf t \<in> set (circlesKey 8 # map circlesKey [1, 2, 3, 4, 5, 6, 7])"
    by (simp add: sevenPairsHand_def circlesKey_def keyOf_def numberTile_def)
  have h4: "kindCount (circlesKey 8) sevenPairsHand = 3"
    by (simp add: kindCount_def sevenPairsHand_def circlesKey_def keyOf_def numberTile_def)
  have h5: "\<forall>k\<in>set (map circlesKey [1, 2, 3, 4, 5, 6, 7]). kindCount k sevenPairsHand = 2"
    by (simp add: kindCount_def sevenPairsHand_def circlesKey_def keyOf_def numberTile_def)
  show ?thesis
    using h1 h2 h3 h4 h5 isWinningHand_siete_pares[OF h1 h2 h3 h4 h5, of "[]"]
    unfolding list_all_iff by blast
qed

text \<open>
  C9. For a hand tile that has exactly one other matching tile in the hand, or two or more,
  the conservative score \<^verbatim>\<open>evaluateDiscardValueForWin\<close> is strictly greater than the
  ordinary score \<^verbatim>\<open>evaluateDiscardValue\<close> of the same tile for the same player and state,
  whatever the winning analysis says.
\<close>

theorem conservative_score_greater:
  assumes "t \<in> set (hand p)"
    and "length (otherMatches t p) = 1 \<or> length (otherMatches t p) \<ge> 2"
  shows "evaluateDiscardValue t p s < evaluateDiscardValueForWin t p s wa"
  using evaluateDiscardValue_le[of t p s] evaluateDiscardValueForWin_ge[of t p s wa]
  by linarith

theorem conservative_score_greater_witness:
  "numberTile 21 Characters 5 \<in> set (hand (players afterDiscard ! 1))
   \<and> length (otherMatches (numberTile 21 Characters 5) (players afterDiscard ! 1)) = 1
   \<and> evaluateDiscardValue (numberTile 21 Characters 5) (players afterDiscard ! 1) afterDiscard
       < evaluateDiscardValueForWin (numberTile 21 Characters 5) (players afterDiscard ! 1)
           afterDiscard pairsAnalysis"
proof -
  have h1: "numberTile 21 Characters 5 \<in> set (hand (players afterDiscard ! 1))"
    by (simp add: afterDiscard_def table_def seat_def)
  have h2: "length (otherMatches (numberTile 21 Characters 5) (players afterDiscard ! 1)) = 1"
    by (simp add: otherMatches_def afterDiscard_def table_def seat_def numberTile_def
        tilesMatch_def)
  show ?thesis
    using h1 h2 conservative_score_greater[OF h1 disjI1[OF h2], of afterDiscard pairsAnalysis]
    by blast
qed

section \<open>Claims\<close>

lemma hasValue_iff: "hasValue ts v \<longleftrightarrow> (\<exists>t\<in>set ts. tvalue t = Some v)"
  by (simp add: hasValue_def list_ex_iff)

lemma canFormSequence_chowPossible:
  assumes "\<forall>t\<in>set hnd. wellFormed t"
  shows "canFormSequence hnd d = chowPossible hnd d"
proof (cases "numbered (suit d)")
  case False
  then show ?thesis by (simp add: canFormSequence_def chowPossible_def)
next
  case True
  show ?thesis
  proof (cases "tvalue d")
    case None
    then show ?thesis using True by (simp add: canFormSequence_def chowPossible_def)
  next
    case (Some v)
    have wf: "1 \<le> x \<and> x \<le> 9" if "t \<in> set hnd" "suit t = suit d" "tvalue t = Some x" for t x
      using assms that True by (auto simp: wellFormed_def)
    have hv: "hasValue (filter (\<lambda>t. suit t = suit d \<and> truthy (tvalue t)) hnd) x
              \<longleftrightarrow> (\<exists>t\<in>set hnd. suit t = suit d \<and> tvalue t = Some x)" for x
      using wf by (fastforce simp: hasValue_iff truthy_def)
    have cp: "chowPossible hnd d \<longleftrightarrow>
       ((\<exists>a\<in>set hnd. suit a = suit d \<and> tvalue a = Some (v + 1))
          \<and> (\<exists>b\<in>set hnd. suit b = suit d \<and> tvalue b = Some (v + 2)))
       \<or> ((\<exists>a\<in>set hnd. suit a = suit d \<and> tvalue a = Some (v - 1))
          \<and> (\<exists>b\<in>set hnd. suit b = suit d \<and> tvalue b = Some (v + 1)))
       \<or> ((\<exists>a\<in>set hnd. suit a = suit d \<and> tvalue a = Some (v - 2))
          \<and> (\<exists>b\<in>set hnd. suit b = suit d \<and> tvalue b = Some (v - 1)))"
      using True Some by (simp add: chowPossible_def) blast
    have b1: "v \<le> 7" if "\<exists>b\<in>set hnd. suit b = suit d \<and> tvalue b = Some (v + 2)"
      using that wf by fastforce
    have b2: "2 \<le> v" if "\<exists>b\<in>set hnd. suit b = suit d \<and> tvalue b = Some (v - 1)"
      using that wf by fastforce
    have b3: "v \<le> 8" if "\<exists>b\<in>set hnd. suit b = suit d \<and> tvalue b = Some (v + 1)"
      using that wf by fastforce
    have b4: "3 \<le> v" if "\<exists>b\<in>set hnd. suit b = suit d \<and> tvalue b = Some (v - 2)"
      using that wf by fastforce
    show ?thesis
      unfolding cp using True Some b1 b2 b3 b4
      by (simp add: canFormSequence_def hv Let_def) blast
  qed
qed

text \<open>
  C7. For a claimant whose hand holds well-formed tiles, a chow claim is valid exactly when
  there is a last discard, it is of a numbered suit, and the hand holds two tiles of that
  suit that make three consecutive values with it, the discard being the low, the middle
  or the high one. The verdict is a function of the claimant's hand and the discard alone:
  changing whose turn it is, and with it which seat discarded, leaves it as it is.
\<close>

theorem isValidClaim_chow:
  assumes "find (\<lambda>p. pid p = claimant c) (players s) = Some p"
    and "ctype c = ClaimChow"
    and "\<forall>t\<in>set (hand p). wellFormed t"
  shows "isValidClaim s c =
           Some (case lastDiscard s of None \<Rightarrow> False | Some d \<Rightarrow> chowPossible (hand p) d)
         \<and> isValidClaim (s\<lparr>currentPlayer := n\<rparr>) c = isValidClaim s c"
  using assms
  by (simp add: isValidClaim_def canFormSequence_chowPossible split: option.splits)

theorem isValidClaim_chow_witness:
  "find (\<lambda>p. pid p = claimant (claimBy ClaimChow ''c'')) (players afterDiscard)
     = Some (seat ''c'' waitingHand fourPungs)
   \<and> ctype (claimBy ClaimChow ''c'') = ClaimChow
   \<and> list_all wellFormed (hand (seat ''c'' waitingHand fourPungs))
   \<and> lastDiscard afterDiscard = Some bamboo4
   \<and> chowPossible (hand (seat ''c'' waitingHand fourPungs)) bamboo4
   \<and> isValidClaim afterDiscard (claimBy ClaimChow ''c'') = Some True
   \<and> isValidClaim (afterDiscard\<lparr>currentPlayer := 3\<rparr>) (claimBy ClaimChow ''c'') = Some True"
proof -
  have h1: "find (\<lambda>p. pid p = claimant (claimBy ClaimChow ''c'')) (players afterDiscard)
              = Some (seat ''c'' waitingHand fourPungs)"
    by (simp add: afterDiscard_def table_def seat_def claimBy_def)
  have h2: "ctype (claimBy ClaimChow ''c'') = ClaimChow" by (simp add: claimBy_def)
  have h3: "\<forall>t\<in>set (hand (seat ''c'' waitingHand fourPungs)). wellFormed t"
    by (simp add: seat_def waitingHand_def wellFormed_def numbered_def windTile_def
        numberTile_def)
  have h4: "lastDiscard afterDiscard = Some bamboo4"
    by (simp add: afterDiscard_def table_def)
  have h5: "chowPossible (hand (seat ''c'' waitingHand fourPungs)) bamboo4"
    by (simp add: chowPossible_def seat_def waitingHand_def bamboo4_def numbered_def
        windTile_def numberTile_def)
  show ?thesis
    using h1 h2 h3 h4 h5 isValidClaim_chow[OF h1 h2 h3, of 3] by (simp add: list_all_iff)
qed


lemma findIndex_Some: "findIndex P xs = Some i \<Longrightarrow> i < length xs \<and> P (xs ! i)"
  by (induction xs arbitrary: i) (auto split: if_splits)

section \<open>Discarding\<close>




section \<open>Processing claims\<close>

lemma recordAmbition_frame:
  "lastDiscard (recordAmbition s i a x) = lastDiscard s"
  "status (recordAmbition s i a x) = status s"
  "winner (recordAmbition s i a x) = winner s"
  "players (recordAmbition s i a x) = players s"
  "wall (recordAmbition s i a x) = wall s"
  "flowerWall (recordAmbition s i a x) = flowerWall s"
  "discardPile (recordAmbition s i a x) = discardPile s"
  "currentPlayer (recordAmbition s i a x) = currentPlayer s"
  "phase (recordAmbition s i a x) = phase s"
  "hasDrawnThisTurn (recordAmbition s i a x) = hasDrawnThisTurn s"
  by (simp_all add: recordAmbition_def)

lemma recordAll_frame:
  "lastDiscard (foldl (\<lambda>g a. recordAmbition g i a (f a)) s as) = lastDiscard s
   \<and> status (foldl (\<lambda>g a. recordAmbition g i a (f a)) s as) = status s
   \<and> players (foldl (\<lambda>g a. recordAmbition g i a (f a)) s as) = players s
   \<and> wall (foldl (\<lambda>g a. recordAmbition g i a (f a)) s as) = wall s
   \<and> flowerWall (foldl (\<lambda>g a. recordAmbition g i a (f a)) s as) = flowerWall s
   \<and> discardPile (foldl (\<lambda>g a. recordAmbition g i a (f a)) s as) = discardPile s"
  by (induction as arbitrary: s) (simp_all add: recordAmbition_frame)





section \<open>Drawing\<close>

lemma drawLoop_eq:
  "drawLoop w fls =
     (drop 1 (dropWhile isBonus w), fls @ takeWhile isBonus w,
      map_option (\<lambda>t. t\<lparr>isRecentlyDrawn := True\<rparr>) (find (\<lambda>t. \<not> isBonus t) w))"
  by (induction w arbitrary: fls) simp_all






section \<open>The kong claim\<close>


lemma find_dropWhile:
  "find (\<lambda>t. \<not> isBonus t) w = (case dropWhile isBonus w of [] \<Rightarrow> None | t # r \<Rightarrow> Some t)"
  by (induction w) auto




section \<open>Tile conservation\<close>

lemma ids_simps [simp]:
  "ids [] = {#}"
  "ids (t # ts) = add_mset (tid t) (ids ts)"
  "ids (a @ b) = ids a + ids b"
  by (simp_all add: ids_def)

lemma ids_clearRecentlyDrawn [simp]: "ids (clearRecentlyDrawn h) = ids h"
  by (simp add: ids_def clearRecentlyDrawn_def comp_def)

lemma length_clearRecentlyDrawn [simp]: "length (clearRecentlyDrawn h) = length h"
  by (simp add: clearRecentlyDrawn_def)

lemma tid_nth_clearRecentlyDrawn:
  "k < length h \<Longrightarrow> tid (clearRecentlyDrawn h ! k) = tid (h ! k)"
  by (simp add: clearRecentlyDrawn_def)

lemma ids_mset: "mset a = mset b \<Longrightarrow> ids a = ids b"
  by (metis ids_def mset_map)

lemma ids_subset: "mset a \<subseteq># mset b \<Longrightarrow> ids a \<subseteq># ids b"
  by (metis ids_def image_mset_subseteq_mono mset_map)

lemma ids_remove_nth:
  "k < length h \<Longrightarrow> add_mset (tid (h ! k)) (ids (take k h @ drop (Suc k) h)) = ids h"
proof -
  assume "k < length h"
  then have "h = take k h @ h ! k # drop (Suc k) h" by (rule id_take_nth_drop)
  then have "ids h = ids (take k h @ h ! k # drop (Suc k) h)" by simp
  then show ?thesis by simp
qed

lemma ids_removeFirstId:
  "i \<in># ids h \<Longrightarrow> add_mset i (ids (removeFirstId i h)) = ids h"
  by (induction h) auto

lemma ids_removeEach:
  "ids g \<subseteq># ids h \<Longrightarrow> ids (removeEach g h) + ids g = ids h"
proof (induction g arbitrary: h)
  case Nil
  then show ?case by (simp add: removeEach_def)
next
  case (Cons t g)
  from Cons.prems have t: "tid t \<in># ids h"
    by (simp add: insert_subset_eq_iff)
  then have h: "add_mset (tid t) (ids (removeFirstId (tid t) h)) = ids h"
    by (rule ids_removeFirstId)
  with Cons.prems have "ids g \<subseteq># ids (removeFirstId (tid t) h)"
    by (metis ids_simps(2) mset_subset_eq_add_mset_cancel)
  from Cons.IH[OF this] have "ids (removeEach g (removeFirstId (tid t) h)) + ids g
      = ids (removeFirstId (tid t) h)" .
  with h show ?case by (simp add: removeEach_def)
qed

lemma sum_list_update_players:
  fixes f :: "player \<Rightarrow> int multiset"
  assumes "i < length ps"
  shows "(\<Sum>p\<leftarrow>ps[i := q]. f p) + f (ps ! i) = (\<Sum>p\<leftarrow>ps. f p) + f q"
  using assms
proof (induction ps arbitrary: i)
  case Nil
  then show ?case by simp
next
  case (Cons a ps)
  show ?case
  proof (cases i)
    case 0
    then show ?thesis by (simp add: ac_simps)
  next
    case (Suc j)
    with Cons.prems have "j < length ps" by simp
    from Cons.IH[OF this] Suc show ?thesis by (simp add: ac_simps)
  qed
qed

lemma nth_playerIds_subset:
  fixes f :: "player \<Rightarrow> int multiset"
  shows "i < length ps \<Longrightarrow> f (ps ! i) \<subseteq># (\<Sum>p\<leftarrow>ps. f p)"
proof (induction ps arbitrary: i)
  case Nil
  then show ?case by simp
next
  case (Cons a ps)
  show ?case
  proof (cases i)
    case 0
    then show ?thesis by simp
  next
    case (Suc j)
    with Cons.prems have "j < length ps" by simp
    from Cons.IH[OF this] have "f (ps ! j) \<subseteq># (\<Sum>p\<leftarrow>ps. f p)" .
    also have "\<dots> \<subseteq># f a + (\<Sum>p\<leftarrow>ps. f p)" by simp
    finally show ?thesis using Suc by simp
  qed
qed

text \<open>
  An operation that rewrites one seat, the wall and the discard pile keeps the ids of the
  state when it keeps the ids of these parts taken together.
\<close>

lemma stateIds_update:
  assumes i: "i < length (players s)"
    and loc: "ids w' + ids dp' + playerIds p'
              = ids (wall s) + ids (discardPile s) + playerIds (players s ! i)"
    and s': "players s' = (players s)[i := p']" "wall s' = w'" "discardPile s' = dp'"
      "flowerWall s' = flowerWall s"
  shows "stateIds s' = stateIds s"
proof -
  let ?A = "\<Sum>p\<leftarrow>players s. playerIds p"
  let ?A' = "\<Sum>p\<leftarrow>(players s)[i := p']. playerIds p"
  have upd: "?A' + playerIds (players s ! i) = ?A + playerIds p'"
    using i by (rule sum_list_update_players)
  have "(ids w' + ids dp' + ?A') + playerIds (players s ! i)
        = (ids w' + ids dp' + playerIds p') + ?A"
    using upd by (simp add: ac_simps)
  also have "\<dots> = (ids (wall s) + ids (discardPile s) + ?A) + playerIds (players s ! i)"
    using loc by (simp add: ac_simps)
  finally have "ids w' + ids dp' + ?A' = ids (wall s) + ids (discardPile s) + ?A"
    by simp
  then show ?thesis by (simp add: stateIds_def s' ac_simps)
qed

lemma wall_split: "ids (takeWhile isBonus w) + ids (dropWhile isBonus w) = ids w"
  by (metis ids_simps(3) takeWhile_dropWhile_id)

lemma drawTile_ids:
  assumes "drawTile s i = Some (s', r)"
  shows "stateIds s' = stateIds s \<and> lastDiscard s' = lastDiscard s
         \<and> discardPile s' = discardPile s \<and> length (players s') = length (players s)"
proof (cases "wall s = []")
  case True
  with assms show ?thesis by (simp add: drawTile_def)
next
  case False
  with assms have i: "i < length (players s)"
    by (auto simp: drawTile_def split: if_splits)
  let ?p = "players s ! i"
  show ?thesis
  proof (cases "dropWhile isBonus (wall s)")
    case Nil
    from assms False i
    have s': "s' = s\<lparr>players := (players s)[i := ?p\<lparr>hand := clearRecentlyDrawn (hand ?p),
                       flowers := flowers ?p @ takeWhile isBonus (wall s)\<rparr>], wall := []\<rparr>"
      by (simp add: Nil drawTile_def drawLoop_eq find_dropWhile Let_def)
    have "stateIds s' = stateIds s"
      using i wall_split[of "wall s"]
      by (intro stateIds_update[where i=i and w'="[]" and dp'="discardPile s"
            and p'="?p\<lparr>hand := clearRecentlyDrawn (hand ?p),
                       flowers := flowers ?p @ takeWhile isBonus (wall s)\<rparr>"])
        (simp_all add: s' Nil playerIds_def meldTiles_def ac_simps)
    then show ?thesis by (simp add: s')
  next
    case (Cons t rest)
    from assms False i
    have s': "s' = s\<lparr>players := (players s)[i := ?p\<lparr>hand := clearRecentlyDrawn (hand ?p)
                          @ [t\<lparr>isRecentlyDrawn := True\<rparr>],
                       flowers := flowers ?p @ takeWhile isBonus (wall s)\<rparr>], wall := rest,
                     lastDrawnTile := Some (t\<lparr>isRecentlyDrawn := True\<rparr>), phase := Discard,
                     hasDrawnThisTurn := True\<rparr>"
      by (auto simp: Cons drawTile_def drawLoop_eq find_dropWhile Let_def)
    have "stateIds s' = stateIds s"
      using i wall_split[of "wall s"]
      by (intro stateIds_update[where i=i and w'=rest and dp'="discardPile s"
            and p'="?p\<lparr>hand := clearRecentlyDrawn (hand ?p) @ [t\<lparr>isRecentlyDrawn := True\<rparr>],
                       flowers := flowers ?p @ takeWhile isBonus (wall s)\<rparr>"])
        (simp_all add: s' Cons playerIds_def meldTiles_def ac_simps)
    then show ?thesis by (simp add: s')
  qed
qed

lemma discardTile_ids:
  assumes "discardTile s i t = Some s'"
  shows "stateIds s' = stateIds s \<and> length (players s') = length (players s)
         \<and> ((\<forall>x. lastDiscard s = Some x \<longrightarrow> tid x \<in># ids (discardPile s))
              \<longrightarrow> (\<forall>x. lastDiscard s' = Some x \<longrightarrow> tid x \<in># ids (discardPile s')))"
proof -
  from assms have i: "i < length (players s)"
    by (auto simp: discardTile_def split: if_splits)
  let ?p = "players s ! i"
  show ?thesis
  proof (cases "findIndex (\<lambda>x. tid x = tid t) (hand ?p)")
    case None
    with assms i show ?thesis by (simp add: discardTile_def)
  next
    case (Some k)
    then have k: "k < length (hand ?p)" and tk: "tid (hand ?p ! k) = tid t"
      using findIndex_Some by fastforce+
    let ?h = "clearRecentlyDrawn (hand ?p)"
    let ?d = "t\<lparr>isRecentlyDiscarded := True\<rparr>"
    let ?p' = "?p\<lparr>hand := take k ?h @ drop (Suc k) ?h, discards := discards ?p @ [?d]\<rparr>"
    from assms i Some
    have s': "s' = s\<lparr>players := (players s)[i := ?p'], discardPile := discardPile s @ [?d],
                     lastDiscard := Some ?d, lastDrawnTile := None,
                     currentPlayer := (currentPlayer s + 1) mod 4, phase := Draw,
                     hasDrawnThisTurn := False\<rparr>"
      by (simp add: discardTile_def Let_def)
    have "k < length ?h" using k by simp
    from ids_remove_nth[OF this]
    have rem: "add_mset (tid t) (ids (take k ?h @ drop (Suc k) ?h)) = ids (hand ?p)"
      using k tk by (simp add: tid_nth_clearRecentlyDrawn)
    have "stateIds s' = stateIds s"
      using i rem
      by (intro stateIds_update[where i=i and w'="wall s" and dp'="discardPile s @ [?d]"
            and p'="?p'"])
        (simp_all add: s' playerIds_def meldTiles_def ac_simps)
    then show ?thesis by (simp add: s')
  qed
qed

lemma takeMeld_frame:
  "wall (takeMeld s i ld hts mt mts) = wall s"
  "flowerWall (takeMeld s i ld hts mt mts) = flowerWall s"
  "lastDiscard (takeMeld s i ld hts mt mts) = lastDiscard s"
  "length (players (takeMeld s i ld hts mt mts)) = length (players s)"
  by (simp_all add: takeMeld_def Let_def)

lemma takeMeld_ids:
  assumes i: "i < length (players s)" and pile: "tid ld \<in># ids (discardPile s)"
    and sub: "ids hts \<subseteq># ids (hand (players s ! i))"
    and m: "ids mts = add_mset (tid ld) (ids hts)"
  shows "stateIds (takeMeld s i ld hts mt mts) = stateIds s"
proof -
  let ?p = "players s ! i"
  let ?dp = "removeFirstId (tid ld) (discardPile s)"
  let ?p' = "?p\<lparr>hand := removeEach hts (hand ?p),
               melds := melds ?p @ [\<lparr>mtype = mt, tiles = mts, isConcealed = False,
                                     claimedFrom = Some (currentPlayer s)\<rparr>]\<rparr>"
  have a: "ids (discardPile s) = add_mset (tid ld) (ids ?dp)"
    using ids_removeFirstId[OF pile] by simp
  have b: "ids (hand ?p) = ids (removeEach hts (hand ?p)) + ids hts"
    using ids_removeEach[OF sub] by simp
  have loc: "ids (wall s) + ids ?dp + playerIds ?p'
             = ids (wall s) + ids (discardPile s) + playerIds ?p"
    by (simp add: playerIds_def meldTiles_def a b m)
  show ?thesis
    using i loc
    by (intro stateIds_update[where i=i and w'="wall s" and dp'="?dp" and p'="?p'"])
      (simp_all add: takeMeld_def Let_def)
qed

lemma find_Some_mem: "find P xs = Some x \<Longrightarrow> x \<in> set xs \<and> P x"
  by (induction xs) (auto split: if_splits)

lemma chowPattern_Some:
  assumes "chowPattern (filter Q hnd) r a b = Some (t1, t2)"
  shows "t1 \<in> set hnd \<and> t2 \<in> set hnd \<and> tvalue t1 = Some a \<and> tvalue t2 = Some b"
proof -
  from assms have "findValue (filter Q hnd) a = Some t1" "findValue (filter Q hnd) b = Some t2"
    by (auto simp: chowPattern_def split: if_splits option.splits)
  then show ?thesis
    using find_Some_mem[of "\<lambda>t. tvalue t = Some a" "filter Q hnd" t1]
      find_Some_mem[of "\<lambda>t. tvalue t = Some b" "filter Q hnd" t2]
    by (simp add: findValue_def)
qed

lemma pair_in_hand:
  assumes "a \<in> set xs" "b \<in> set xs" "a \<noteq> b"
  shows "{#a, b#} \<subseteq># mset xs"
proof (rule mset_subset_eqI)
  fix x
  from assms have "1 \<le> count (mset xs) a" "1 \<le> count (mset xs) b"
    by (simp_all add: Suc_le_eq)
  with assms(3) show "count {#a, b#} x \<le> count (mset xs) x" by auto
qed

text \<open>
  A chow that \<^verbatim>\<open>formChow\<close> returns is made of the discard and two different tiles of the
  hand.
\<close>

lemma mset_sortByValue [simp]: "mset (sortByValue xs) = mset xs"
  by (simp add: sortByValue_def)

lemma formChow_Some:
  assumes "formChow hnd d = Some c"
  shows "\<exists>t1 t2. t1 \<in> set hnd \<and> t2 \<in> set hnd \<and> tvalue t1 \<noteq> tvalue t2
                  \<and> mset c = {#d, t1, t2#}"
proof -
  let ?st = "filter (\<lambda>t. suit t = suit d \<and> truthy (tvalue t)) hnd"
  from assms obtain v where v: "tvalue d = Some v"
    by (cases "tvalue d") (auto simp: formChow_def Let_def split: if_splits)
  from assms v have
    "(\<exists>t1 t2. chowPattern ?st (v \<le> 7) (v + 1) (v + 2) = Some (t1, t2)
         \<and> c = sortByValue [d, t1, t2])
     \<or> (\<exists>t1 t2. chowPattern ?st (v \<ge> 2 \<and> v \<le> 8) (v - 1) (v + 1) = Some (t1, t2)
         \<and> c = sortByValue [t1, d, t2])
     \<or> (\<exists>t1 t2. chowPattern ?st (v \<ge> 3) (v - 2) (v - 1) = Some (t1, t2)
         \<and> c = sortByValue [t1, t2, d])"
    by (auto simp: formChow_def Let_def split: if_splits option.splits)
  then show ?thesis
  proof (elim disjE exE conjE)
    fix t1 t2
    assume p: "chowPattern ?st (v \<le> 7) (v + 1) (v + 2) = Some (t1, t2)"
      and c: "c = sortByValue [d, t1, t2]"
    from chowPattern_Some[OF p] c show ?thesis
      by (intro exI[of _ t1] exI[of _ t2]) simp
  next
    fix t1 t2
    assume p: "chowPattern ?st (v \<ge> 2 \<and> v \<le> 8) (v - 1) (v + 1) = Some (t1, t2)"
      and c: "c = sortByValue [t1, d, t2]"
    from chowPattern_Some[OF p] c show ?thesis
      by (intro exI[of _ t1] exI[of _ t2]) simp
  next
    fix t1 t2
    assume p: "chowPattern ?st (v \<ge> 3) (v - 2) (v - 1) = Some (t1, t2)"
      and c: "c = sortByValue [t1, t2, d]"
    from chowPattern_Some[OF p] c show ?thesis
      by (intro exI[of _ t1] exI[of _ t2]) simp
  qed
qed

lemma ids_take_filter: "ids (take n (filter P xs)) \<subseteq># ids xs"
proof -
  have "mset (take n (filter P xs)) \<subseteq># mset (filter P xs)"
    by (metis append_take_drop_id mset_append mset_subset_eq_add_left)
  also have "\<dots> \<subseteq># mset xs" by simp
  finally show ?thesis by (rule ids_subset)
qed

text \<open>
  In a state whose ids are pairwise different, no tile of a hand has the id of a tile of the
  discard pile.
\<close>


lemma hand_pile_disjoint:
  assumes d: "\<forall>x. count (stateIds s) x \<le> 1" and i: "i < length (players s)"
    and h: "t \<in> set (hand (players s ! i))" and p: "x \<in># ids (discardPile s)"
  shows "tid t \<noteq> x"
proof
  assume e: "tid t = x"
  from h have "tid t \<in> tid ` set (hand (players s ! i))" by (rule imageI)
  then have "x \<in># ids (hand (players s ! i))" by (simp add: ids_def e)
  then have m: "x \<in># playerIds (players s ! i)" by (simp add: playerIds_def)
  have sub: "playerIds (players s ! i) \<subseteq># (\<Sum>p\<leftarrow>players s. playerIds p)"
    using i by (rule nth_playerIds_subset)
  from sub m have "x \<in># (\<Sum>p\<leftarrow>players s. playerIds p)" by (rule mset_subset_eqD)
  then have c2: "1 \<le> count (\<Sum>p\<leftarrow>players s. playerIds p) x"
    by (simp only: count_greater_eq_one_iff)
  from p have c1: "1 \<le> count (ids (discardPile s)) x"
    by (simp only: count_greater_eq_one_iff)
  have "count (stateIds s) x = count (ids (wall s)) x + count (ids (flowerWall s)) x
          + count (ids (discardPile s)) x + count (\<Sum>p\<leftarrow>players s. playerIds p) x"
    by (simp only: stateIds_def count_union)
  with c1 c2 have "2 \<le> count (stateIds s) x" by linarith
  moreover from d have "count (stateIds s) x \<le> 1" by (rule spec)
  ultimately show False by linarith
qed

lemma chow_parts:
  assumes fc: "formChow hnd l = Some ct" and dis: "\<forall>t\<in>set hnd. tid t \<noteq> tid l"
  shows "ids (filter (\<lambda>t. tid t \<noteq> tid l) ct) \<subseteq># ids hnd
         \<and> ids ct = add_mset (tid l) (ids (filter (\<lambda>t. tid t \<noteq> tid l) ct))"
proof -
  from formChow_Some[OF fc] obtain t1 t2 where
    t: "t1 \<in> set hnd" "t2 \<in> set hnd" "tvalue t1 \<noteq> tvalue t2" and c: "mset ct = {#l, t1, t2#}"
    by blast
  from t dis have ne: "tid t1 \<noteq> tid l" "tid t2 \<noteq> tid l" "t1 \<noteq> t2" by auto
  have "mset (filter (\<lambda>t. tid t \<noteq> tid l) ct) = mset [t1, t2]"
    using ne by (simp add: c)
  then have f: "ids (filter (\<lambda>t. tid t \<noteq> tid l) ct) = ids [t1, t2]" by (rule ids_mset)
  have "mset [t1, t2] \<subseteq># mset hnd"
    using pair_in_hand[OF t(1) t(2) ne(3)] by simp
  then have sub: "ids [t1, t2] \<subseteq># ids hnd" by (rule ids_subset)
  have "mset ct = mset [l, t1, t2]" by (simp add: c)
  then have "ids ct = ids [l, t1, t2]" by (rule ids_mset)
  with f sub show ?thesis by simp
qed

lemma claimantToDiscard_frame:
  "stateIds (claimantToDiscard s i) = stateIds s"
  "lastDiscard (claimantToDiscard s i) = None"
  by (simp_all add: claimantToDiscard_def stateIds_def)

lemma recordAmbition_ids: "stateIds (recordAmbition s i a x) = stateIds s"
  by (simp add: stateIds_def recordAmbition_frame)

lemma recordAll_ids:
  "stateIds (foldl (\<lambda>g a. recordAmbition g i a (f a)) s as) = stateIds s"
  using recordAll_frame[of i f s as] by (simp add: stateIds_def)

text \<open>
  A claim keeps the ids of the state, provided they are pairwise different and the last
  discard lies on the discard pile; and it keeps the last discard on the pile.
\<close>

lemma processClaim_ids:
  assumes d: "\<forall>x. count (stateIds s) x \<le> 1"
    and ld: "\<forall>x. lastDiscard s = Some x \<longrightarrow> tid x \<in># ids (discardPile s)"
    and pc: "processClaim s c = Some (s', b)"
  shows "stateIds s' = stateIds s
         \<and> (\<forall>x. lastDiscard s' = Some x \<longrightarrow> tid x \<in># ids (discardPile s'))"
proof (cases "b \<and> isValidClaim s c = Some True")
  case False
  with pc have "s' = s"
    by (auto simp: processClaim_def Let_def
        split: option.splits bool.splits if_splits prod.splits claimType.splits)
  with ld show ?thesis by simp
next
  case True
  then have b: "b" and valid: "isValidClaim s c = Some True" by simp_all
  from pc valid b obtain idx l where idx: "findIndex (\<lambda>p. pid p = claimant c) (players s) = Some idx"
    and l: "lastDiscard s = Some l"
    by (auto simp: processClaim_def split: option.splits)
  from idx have i: "idx < length (players s)" using findIndex_Some by fastforce
  from ld l have pile: "tid l \<in># ids (discardPile s)" by simp
  let ?h = "hand (players s ! idx)"
  have dis: "\<forall>t\<in>set ?h. tid t \<noteq> tid l"
    using hand_pile_disjoint[OF d i _ pile] by blast
  show ?thesis
  proof (cases "ctype c")
    case ClaimChow
    with pc valid idx l b obtain ct where fc: "formChow ?h l = Some ct"
      and s': "s' = claimantToDiscard
                     (takeMeld s idx l (filter (\<lambda>t. tid t \<noteq> tid l) ct) Chow ct) idx"
      by (auto simp: processClaim_def Let_def split: option.splits)
    from chow_parts[OF fc dis] have
      "stateIds (takeMeld s idx l (filter (\<lambda>t. tid t \<noteq> tid l) ct) Chow ct) = stateIds s"
      by (intro takeMeld_ids[OF i pile]) simp_all
    then show ?thesis by (simp add: s' claimantToDiscard_frame)
  next
    case ClaimPung
    let ?k = "take 2 (filter (\<lambda>t. tilesMatch t l) ?h)"
    from pc valid idx l b ClaimPung
    have s': "s' = claimantToDiscard
                     (recordAmbition (takeMeld s idx l ?k Pung (l # ?k)) (claimant c) kang (1 / 4))
                     idx"
      by (auto simp: processClaim_def Let_def simp del: length_take split: if_splits)
    have "stateIds (takeMeld s idx l ?k Pung (l # ?k)) = stateIds s"
      by (intro takeMeld_ids[OF i pile] ids_take_filter) simp
    then show ?thesis by (simp add: s' claimantToDiscard_frame recordAmbition_ids)
  next
    case ClaimKong
    let ?k = "take 3 (filter (\<lambda>t. tilesMatch t l) ?h)"
    from pc valid idx l b ClaimKong obtain g r where
      dr: "drawTile (takeMeld s idx l ?k Kong (l # ?k)) idx = Some (g, r)"
      and s': "s' = claimantToDiscard (recordAmbition g (claimant c) kang (1 / 4)) idx"
      by (auto simp: processClaim_def Let_def simp del: length_take
          split: if_splits option.splits)
    have "stateIds (takeMeld s idx l ?k Kong (l # ?k)) = stateIds s"
      by (intro takeMeld_ids[OF i pile] ids_take_filter) simp
    with drawTile_ids[OF dr] have "stateIds g = stateIds s" by simp
    then show ?thesis by (simp add: s' claimantToDiscard_frame recordAmbition_ids)
  next
    case ClaimWin
    from pc valid idx l b ClaimWin have
      "\<exists>as. s' = foldl (\<lambda>g a. recordAmbition g (claimant c) a (getAmbitionPayout a))
                  (s\<lparr>status := Finished, winner := Some idx\<rparr>) as"
      by (auto simp: processClaim_def Let_def split: if_splits option.splits)
    then obtain as where
      s': "s' = foldl (\<lambda>g a. recordAmbition g (claimant c) a (getAmbitionPayout a))
                  (s\<lparr>status := Finished, winner := Some idx\<rparr>) as" ..
    have "stateIds (s\<lparr>status := Finished, winner := Some idx\<rparr>) = stateIds s"
      by (simp add: stateIds_def)
    with ld show ?thesis
      using recordAll_frame[of "claimant c" getAmbitionPayout
          "s\<lparr>status := Finished, winner := Some idx\<rparr>" as]
      by (simp add: s' recordAll_ids)
  qed
qed

lemma flowerScan_ids:
  assumes "flowerScan n (h, fls, w, b) = (h', fls', w', b')" and "n \<le> length h"
  shows "ids h' + ids fls' + ids w' = ids h + ids fls + ids w"
  using assms
proof (induction n arbitrary: h fls w b)
  case 0
  then show ?case by simp
next
  case (Suc i)
  from Suc.prems(2) have i: "i < length h" by simp
  show ?case
  proof (cases "isBonus (h ! i)")
    case False
    with Suc.prems have "flowerScan i (h, fls, w, b) = (h', fls', w', b')" by simp
    with Suc.IH[of h fls w b] Suc.prems(2) show ?thesis by simp
  next
    case True
    let ?g = "take i h @ drop (Suc i) h"
    have rem: "add_mset (tid (h ! i)) (ids ?g) = ids h" using i by (rule ids_remove_nth)
    have len: "i \<le> length ?g" using i by simp
    show ?thesis
    proof (cases w)
      case Nil
      with True i Suc.prems have run: "flowerScan i (?g, fls @ [h ! i], [], True) = (h', fls', w', b')"
        by simp
      from Suc.IH[OF run len] have "ids h' + ids fls' + ids w' = ids ?g + ids (fls @ [h ! i])"
        by simp
      with rem Nil show ?thesis by (simp flip: rem)
    next
      case (Cons r u)
      with True i Suc.prems have run:
        "flowerScan i (?g @ [r], fls @ [h ! i], u, True) = (h', fls', w', b')"
        by simp
      have "i \<le> length (?g @ [r])" using i by simp
      from Suc.IH[OF run this]
      have "ids h' + ids fls' + ids w' = ids (?g @ [r]) + ids (fls @ [h ! i]) + ids u" .
      with rem Cons show ?thesis by (simp flip: rem)
    qed
  qed
qed

lemma replaceFlowers_ids:
  "replaceFlowers (h, fls, w) = (h', fls', w') \<Longrightarrow>
     ids h' + ids fls' + ids w' = ids h + ids fls + ids w"
proof (induction "(h, fls, w)" arbitrary: h fls w rule: replaceFlowers.induct)
  case (1 h fls w)
  obtain h1 f1 w1 b1 where sc: "flowerScan (length h) (h, fls, w, False) = (h1, f1, w1, b1)"
    by (metis prod_cases4)
  from flowerScan_ids[OF sc] have one: "ids h1 + ids f1 + ids w1 = ids h + ids fls + ids w"
    by simp
  show ?case
  proof (cases b1)
    case True
    with "1.prems" sc have "replaceFlowers (h1, f1, w1) = (h', fls', w')" by simp
    from "1.hyps"[OF sc[symmetric] refl refl True this] one show ?thesis by simp
  next
    case False
    with "1.prems" sc one show ?thesis by simp
  qed
qed

lemma fillHand_ids:
  "fillHand h fls w = (h', fls', w') \<Longrightarrow> ids h' + ids fls' + ids w' = ids h + ids fls + ids w"
proof (induction w arbitrary: h fls)
  case Nil
  then show ?case by simp
next
  case (Cons t w)
  show ?case
  proof (cases "length h < 16")
    case False
    with Cons.prems show ?thesis by simp
  next
    case True
    show ?thesis
    proof (cases "isBonus t")
      case b: True
      with True Cons.prems have "fillHand h (fls @ [t]) w = (h', fls', w')" by simp
      from Cons.IH[OF this] show ?thesis by simp
    next
      case b: False
      with True Cons.prems have "fillHand (h @ [t]) fls w = (h', fls', w')" by simp
      from Cons.IH[OF this] show ?thesis by simp
    qed
  qed
qed

lemma ensureCorrectHandSize_ids:
  assumes "ensureCorrectHandSize s i = Some s'"
  shows "stateIds s' = stateIds s \<and> lastDiscard s' = lastDiscard s
         \<and> discardPile s' = discardPile s \<and> length (players s') = length (players s)"
proof -
  from assms have i: "i < length (players s)"
    by (auto simp: ensureCorrectHandSize_def split: if_splits)
  let ?p = "players s ! i"
  obtain h1 f1 w1 where r: "replaceFlowers (hand ?p, flowers ?p, wall s) = (h1, f1, w1)"
    by (metis prod_cases3)
  obtain h2 f2 w2 where f: "fillHand h1 f1 w1 = (h2, f2, w2)"
    by (metis prod_cases3)
  from assms i r f
  have s': "s' = s\<lparr>players := (players s)[i := ?p\<lparr>hand := h2, flowers := f2\<rparr>], wall := w2\<rparr>"
    by (simp add: ensureCorrectHandSize_def Let_def)
  from replaceFlowers_ids[OF r] fillHand_ids[OF f]
  have loc: "ids h2 + ids f2 + ids w2 = ids (hand ?p) + ids (flowers ?p) + ids (wall s)"
    by simp
  have "stateIds s' = stateIds s"
    using i loc
    by (intro stateIds_update[where i=i and w'=w2 and dp'="discardPile s"
          and p'="?p\<lparr>hand := h2, flowers := f2\<rparr>"])
      (simp_all add: s' playerIds_def meldTiles_def ac_simps)
  then show ?thesis by (simp add: s')
qed

lemma forEachPlayer_ids:
  "forEachPlayer is s = Some s' \<Longrightarrow>
     stateIds s' = stateIds s \<and> lastDiscard s' = lastDiscard s \<and> discardPile s' = discardPile s"
proof (induction "is" arbitrary: s)
  case Nil
  then show ?case by simp
next
  case (Cons i rest)
  from Cons.prems obtain s1 where e: "ensureCorrectHandSize s i = Some s1"
    and f: "forEachPlayer rest s1 = Some s'"
    by (auto split: option.splits)
  from Cons.IH[OF f] ensureCorrectHandSize_ids[OF e] show ?case by simp
qed

lemma sum_update_add:
  assumes "i < length ps" and "playerIds q = playerIds (ps ! i) + X"
  shows "(\<Sum>p\<leftarrow>ps[i := q]. playerIds p) = (\<Sum>p\<leftarrow>ps. playerIds p) + X"
proof -
  from sum_list_update_players[OF assms(1), of playerIds q]
  have "(\<Sum>p\<leftarrow>ps[i := q]. playerIds p) + playerIds (ps ! i)
        = ((\<Sum>p\<leftarrow>ps. playerIds p) + X) + playerIds (ps ! i)"
    by (simp add: assms(2) ac_simps)
  then show ?thesis by simp
qed

lemma dealLoop_ids:
  "dealLoop w order (ps, k) = Some (ps', k') \<Longrightarrow>
     (\<Sum>p\<leftarrow>ps'. playerIds p) + ids (drop k' w) = (\<Sum>p\<leftarrow>ps. playerIds p) + ids (drop k w)"
proof (induction order arbitrary: ps k)
  case Nil
  then show ?case by simp
next
  case (Cons pi order)
  show ?case
  proof (cases "k < length w")
    case False
    with Cons.prems have "dealLoop w order (ps, k) = Some (ps', k')" by simp
    from Cons.IH[OF this] show ?thesis .
  next
    case True
    with Cons.prems have pi: "pi < length ps" by (auto split: if_splits)
    let ?q = "(ps ! pi)\<lparr>hand := hand (ps ! pi) @ [w ! k]\<rparr>"
    from True pi Cons.prems have "dealLoop w order (ps[pi := ?q], k + 1) = Some (ps', k')"
      by simp
    from Cons.IH[OF this]
    have "(\<Sum>p\<leftarrow>ps'. playerIds p) + ids (drop k' w)
          = (\<Sum>p\<leftarrow>ps[pi := ?q]. playerIds p) + ids (drop (Suc k) w)" by simp
    also have "(\<Sum>p\<leftarrow>ps[pi := ?q]. playerIds p) = (\<Sum>p\<leftarrow>ps. playerIds p) + {#tid (w ! k)#}"
      using pi by (intro sum_update_add) (simp_all add: playerIds_def meldTiles_def)
    also have "drop k w = w ! k # drop (Suc k) w"
      using True by (simp add: Cons_nth_drop_Suc)
    then have "{#tid (w ! k)#} + ids (drop (Suc k) w) = ids (drop k w)" by simp
    then have "(\<Sum>p\<leftarrow>ps. playerIds p) + {#tid (w ! k)#} + ids (drop (Suc k) w)
               = (\<Sum>p\<leftarrow>ps. playerIds p) + ids (drop k w)"
      by (simp add: ac_simps)
    finally show ?thesis .
  qed
qed

lemma ids_partition: "ids (filter P xs) + ids (filter (\<lambda>x. \<not> P x) xs) = ids xs"
  by (induction xs) auto

lemma fresh_players_ids:
  "(\<Sum>p\<leftarrow>map (\<lambda>(index, p). p\<lparr>hand := [], melds := [], flowers := [], discards := [],
                                   isDealer := (index = d)\<rparr>) xs. playerIds p) = {#}"
  by (induction xs) (auto simp: playerIds_def meldTiles_def)

text \<open>
  The state that \<^verbatim>\<open>initializeGame\<close> returns holds the ids of the tile set, each as often
  as the tile set does, and has no last discard.
\<close>

lemma initializeGame_ids:
  assumes perm: "\<forall>xs. mset (sh xs) = mset xs"
    and init: "initializeGame ts sh d ps = Some s0"
  shows "stateIds s0 = ids ts \<and> lastDiscard s0 = None"
proof -
  let ?tls = "sh ts"
  let ?w = "sh (filter (\<lambda>t. \<not> isBonus t) ?tls)"
  let ?fw = "sh (filter isBonus ?tls)"
  let ?fresh = "map (\<lambda>(index, p). p\<lparr>hand := [], melds := [], flowers := [], discards := [],
                                     isDealer := (index = d)\<rparr>) (enumerate 0 ps)"
  let ?g = "\<lparr>players = ?fresh, currentPlayer = d, dealer = d, wall = [], flowerWall = [],
             discardPile = [], lastDiscard = None, lastDrawnTile = None, round = 1,
             prevailingWind = East, status = Playing, winner = None, scores = [0, 0, 0, 0],
             ambitions = [], phase = Discard, hasDrawnThisTurn = False\<rparr>"
  from init obtain dealt k where deal: "dealLoop ?w dealOrder (?fresh, 0) = Some (dealt, k)"
    by (auto simp: initializeGame_def Let_def split: option.splits)
  let ?g1 = "?g\<lparr>players := dealt, wall := drop k ?w, flowerWall := ?fw\<rparr>"
  from init deal obtain g2 where each: "forEachPlayer [0..<length dealt] ?g1 = Some g2"
    by (auto simp: initializeGame_def Let_def split: option.splits)
  from init deal each obtain r where draw: "drawTile g2 d = Some (s0, r)"
    by (auto simp: initializeGame_def Let_def split: option.splits)
  have sh: "ids (sh xs) = ids xs" for xs
    using perm by (intro ids_mset) simp
  have "ids ?w + ids ?fw = ids (filter (\<lambda>t. \<not> isBonus t) ?tls) + ids (filter isBonus ?tls)"
    by (simp only: sh)
  also have "\<dots> = ids ?tls" using ids_partition[of isBonus ?tls] by (simp add: ac_simps)
  also have "\<dots> = ids ts" by (rule sh)
  finally have tiles: "ids ?w + ids ?fw = ids ts" .
  from dealLoop_ids[OF deal] fresh_players_ids[of d "enumerate 0 ps"]
  have "(\<Sum>p\<leftarrow>dealt. playerIds p) + ids (drop k ?w) = ids ?w"
    by simp
  then have "stateIds ?g1 = ids ?w + ids ?fw"
    by (simp add: stateIds_def ac_simps)
  with tiles have one: "stateIds ?g1 = ids ts" by simp
  from forEachPlayer_ids[OF each] one have two: "stateIds g2 = ids ts" "lastDiscard g2 = None"
    by simp_all
  from drawTile_ids[OF draw] two show ?thesis by simp
qed

end
